theory Spec2Isabelle
  imports Complex_Main
begin

section \<open>Batched hypothesis buffers of \<open>rnnt_utils.py\<close>\<close>

text \<open>
  The development embeds the buffer classes of
  \<open>nemo/collections/asr/parts/utils/rnnt_utils.py\<close>: \<open>BatchedHyps\<close> (greedy decoding),
  \<open>BatchedAlignments\<close>, \<open>BeamBatchedHyps\<close> and the function
  \<open>batched_hyps_to_hypotheses\<close>.

  Tensors are lists (one level of nesting per dimension). Integer tensors hold \<open>int\<close>,
  the write cursors of the greedy buffer hold \<open>nat\<close> (they start at 0 and only grow),
  floating point tensors hold \<open>real\<close>: rounding, infinities and NaN are outside the model.
  Every Python exception is a value \<open>Inl e\<close>; a call that raises returns no state.
  A shape mismatch between the arguments of one tensor operation is an error in the model
  (broadcasting of size-1 dimensions is not modelled; the docstrings assume equal first
  dimensions).
\<close>

datatype error = ValueError | AssertionError | IndexError | RuntimeError

definition ebind :: "error + 'a \<Rightarrow> ('a \<Rightarrow> error + 'b) \<Rightarrow> error + 'b" where
  "ebind m f = (case m of Inl e \<Rightarrow> Inl e | Inr x \<Rightarrow> f x)"

subsection \<open>Tensor primitives\<close>

text \<open>\<open>xs[idx]\<close> with an index tensor: every index must be in range.\<close>

definition gather :: "'a list \<Rightarrow> nat list \<Rightarrow> error + 'a list" where
  "gather xs idx =
     (if \<forall>i \<in> set idx. i < length xs then Inr (map ((!) xs) idx) else Inl IndexError)"

text \<open>\<open>xs[idx] = vals\<close>: the values are written one after the other, so that with a
  repeated index the last value stays.\<close>

definition index_put :: "'a list \<Rightarrow> nat list \<Rightarrow> 'a list \<Rightarrow> error + 'a list" where
  "index_put xs idx vals =
     (if length vals \<noteq> length idx then Inl RuntimeError
      else if \<forall>i \<in> set idx. i < length xs
      then Inr (fold (\<lambda>(i, v) acc. acc[i := v]) (zip idx vals) xs)
      else Inl IndexError)"

text \<open>\<open>m[rows, cols] = vals\<close> on a two-dimensional tensor.\<close>

definition index_put2 :: "'a list list \<Rightarrow> nat list \<Rightarrow> nat list \<Rightarrow> 'a list \<Rightarrow> error + 'a list list" where
  "index_put2 m rows cols vals =
     (if length cols \<noteq> length rows \<or> length vals \<noteq> length rows then Inl RuntimeError
      else if \<forall>(r, c) \<in> set (zip rows cols). r < length m \<and> c < length (m ! r)
      then Inr (fold (\<lambda>(r, c, v) acc. acc[r := (acc ! r)[c := v]]) (zip rows (zip cols vals)) m)
      else Inl IndexError)"

text \<open>Elementwise operations on tensors of one shape.\<close>

definition zip_with :: "('a \<Rightarrow> 'b \<Rightarrow> 'c) \<Rightarrow> 'a list \<Rightarrow> 'b list \<Rightarrow> error + 'c list" where
  "zip_with f xs ys =
     (if length xs = length ys then Inr (map2 f xs ys) else Inl RuntimeError)"

text \<open>\<open>t.max()\<close> raises on an empty tensor.\<close>

definition tensor_max :: "'a::linorder list \<Rightarrow> error + 'a" where
  "tensor_max xs = (case xs of [] \<Rightarrow> Inl RuntimeError | x # ys \<Rightarrow> Inr (fold max ys x))"

subsection \<open>\<open>BatchedHyps\<close>\<close>

record BatchedHyps =
  max_length :: nat
  current_lengths :: "nat list"
  transcript :: "int list list"
  timesteps :: "int list list"
  scores :: "real list"
  last_timestep :: "int list"
  last_timestep_lasts :: "int list"
  batch_indices :: "nat list"
  ones_batch :: "int list"
  batch_size :: nat

definition BatchedHyps_init :: "int \<Rightarrow> int \<Rightarrow> error + BatchedHyps" where
  "BatchedHyps_init batch_sz init_length =
     (if init_length \<le> 0 then Inl ValueError
      else if batch_sz \<le> 0 then Inl ValueError
      else Inr \<lparr> max_length = nat init_length,
                 current_lengths = replicate (nat batch_sz) 0,
                 transcript = replicate (nat batch_sz) (replicate (nat init_length) 0),
                 timesteps = replicate (nat batch_sz) (replicate (nat init_length) 0),
                 scores = replicate (nat batch_sz) 0,
                 last_timestep = replicate (nat batch_sz) (- 1),
                 last_timestep_lasts = replicate (nat batch_sz) 0,
                 batch_indices = [0..<nat batch_sz],
                 ones_batch = replicate (nat batch_sz) 1,
                 batch_size = nat batch_sz \<rparr>)"

definition clear :: "BatchedHyps \<Rightarrow> BatchedHyps" where
  "clear h = h \<lparr> current_lengths := map (\<lambda>_. 0) (current_lengths h),
                  transcript := map (map (\<lambda>_. 0)) (transcript h),
                  timesteps := map (map (\<lambda>_. 0)) (timesteps h),
                  scores := map (\<lambda>_. 0) (scores h),
                  last_timestep := map (\<lambda>_. - 1) (last_timestep h),
                  last_timestep_lasts := map (\<lambda>_. 0) (last_timestep_lasts h) \<rparr>"

text \<open>\<open>torch.cat((t, torch.zeros_like(t)), dim=-1)\<close>: every row is followed by as many
  zeros as it has entries.\<close>

definition cat_zeros :: "int list list \<Rightarrow> int list list" where
  "cat_zeros m = map (\<lambda>row. row @ replicate (length row) 0) m"

definition allocate_more :: "BatchedHyps \<Rightarrow> BatchedHyps" where
  "allocate_more h = h \<lparr> transcript := cat_zeros (transcript h),
                          timesteps := cat_zeros (timesteps h),
                          max_length := max_length h * 2 \<rparr>"

definition add_results_no_checks ::
  "BatchedHyps \<Rightarrow> nat list \<Rightarrow> int list \<Rightarrow> int list \<Rightarrow> real list \<Rightarrow> error + BatchedHyps" where
  "add_results_no_checks h active_indices labels time_indices scs =
     ebind (gather (scores h) active_indices) (\<lambda>old_scores.
     ebind (zip_with (+) old_scores scs) (\<lambda>new_scores.
     ebind (index_put (scores h) active_indices new_scores) (\<lambda>scores'.
     ebind (gather (current_lengths h) active_indices) (\<lambda>active_lengths.
     ebind (index_put2 (transcript h) active_indices active_lengths labels) (\<lambda>transcript'.
     ebind (index_put2 (timesteps h) active_indices active_lengths time_indices) (\<lambda>timesteps'.
     ebind (gather (last_timestep h) active_indices) (\<lambda>lt.
     ebind (zip_with (=) lt time_indices) (\<lambda>same.
     ebind (gather (last_timestep_lasts h) active_indices) (\<lambda>ll.
     ebind (index_put (last_timestep_lasts h) active_indices
              (map2 (\<lambda>c l. if c then l + 1 else 1) same ll)) (\<lambda>lasts'.
     ebind (index_put (last_timestep h) active_indices time_indices) (\<lambda>last_timestep'.
     ebind (index_put (current_lengths h) active_indices (map Suc active_lengths)) (\<lambda>lengths'.
       Inr (h \<lparr> scores := scores',
                 transcript := transcript',
                 timesteps := timesteps',
                 last_timestep_lasts := lasts',
                 last_timestep := last_timestep',
                 current_lengths := lengths' \<rparr>)))))))))))))"

definition add_results ::
  "BatchedHyps \<Rightarrow> nat list \<Rightarrow> int list \<Rightarrow> int list \<Rightarrow> real list \<Rightarrow> error + BatchedHyps" where
  "add_results h active_indices labels time_indices scs =
     (if length active_indices = 0 then Inr h
      else ebind (tensor_max (current_lengths h)) (\<lambda>m.
        add_results_no_checks
          (if m \<ge> max_length h then allocate_more h else h)
          active_indices labels time_indices scs))"

text \<open>The mask is a boolean tensor; added to the lengths it counts as 0 or 1.\<close>

definition mask_val :: "bool \<Rightarrow> nat" where
  "mask_val m = (if m then 1 else 0)"

definition add_results_masked_no_checks ::
  "BatchedHyps \<Rightarrow> bool list \<Rightarrow> int list \<Rightarrow> int list \<Rightarrow> real list \<Rightarrow> error + BatchedHyps" where
  "add_results_masked_no_checks h active_mask labels time_indices scs =
     ebind (zip_with (+) (scores h) scs) (\<lambda>summed.
     ebind (zip_with (\<lambda>m (a, b). if m then a else b) active_mask (zip summed (scores h))) (\<lambda>scores'.
     ebind (index_put2 (transcript h) (batch_indices h) (current_lengths h) labels) (\<lambda>transcript'.
     ebind (index_put2 (timesteps h) (batch_indices h) (current_lengths h) time_indices) (\<lambda>timesteps'.
     ebind (zip_with (=) (last_timestep h) time_indices) (\<lambda>same.
     ebind (zip_with (\<and>) active_mask same) (\<lambda>inc.
     ebind (zip_with (\<lambda>c l. if c then l + 1 else l) inc (last_timestep_lasts h)) (\<lambda>lasts1.
     ebind (zip_with (\<lambda>m s. m \<and> \<not> s) active_mask same) (\<lambda>reset.
     ebind (zip_with (\<lambda>c (one, l). if c then one else l) reset (zip (ones_batch h) lasts1)) (\<lambda>lasts'.
     ebind (zip_with (\<lambda>m (t, l). if m then t else l) active_mask
              (zip time_indices (last_timestep h))) (\<lambda>last_timestep'.
     ebind (zip_with (\<lambda>l m. l + mask_val m) (current_lengths h) active_mask) (\<lambda>lengths'.
       Inr (h \<lparr> scores := scores',
                 transcript := transcript',
                 timesteps := timesteps',
                 last_timestep_lasts := lasts',
                 last_timestep := last_timestep',
                 current_lengths := lengths' \<rparr>))))))))))))"

definition add_results_masked ::
  "BatchedHyps \<Rightarrow> bool list \<Rightarrow> int list \<Rightarrow> int list \<Rightarrow> real list \<Rightarrow> error + BatchedHyps" where
  "add_results_masked h active_mask labels time_indices scs =
     ebind (zip_with (\<lambda>l m. l + mask_val m) (current_lengths h) active_mask) (\<lambda>prospective.
     ebind (tensor_max prospective) (\<lambda>m.
       add_results_masked_no_checks
         (if m \<ge> max_length h then allocate_more h else h)
         active_mask labels time_indices scs))"

subsection \<open>Logical contents of the greedy buffer\<close>

type_synonym item = "real \<times> nat \<times> int \<times> int \<times> int list \<times> int list"

definition item_view :: "BatchedHyps \<Rightarrow> nat \<Rightarrow> item" where
  "item_view h b =
     (scores h ! b, current_lengths h ! b, last_timestep h ! b, last_timestep_lasts h ! b,
      take (current_lengths h ! b) (transcript h ! b),
      take (current_lengths h ! b) (timesteps h ! b))"

definition logical_contents :: "BatchedHyps \<Rightarrow> item list" where
  "logical_contents h = map (item_view h) [0..<batch_size h]"

fun append_item :: "item \<Rightarrow> (int \<times> int \<times> real) option \<Rightarrow> item" where
  "append_item it None = it"
| "append_item (s, n, lt, ll, tr, ts) (Some (lab, t, sc)) =
     (s + sc, Suc n, t, (if lt = t then ll + 1 else 1), tr @ [lab], ts @ [t])"

definition index_update ::
  "nat list \<Rightarrow> int list \<Rightarrow> int list \<Rightarrow> real list \<Rightarrow> nat \<Rightarrow> (int \<times> int \<times> real) option" where
  "index_update active_indices labels time_indices scs b =
     map_of (zip active_indices (zip labels (zip time_indices scs))) b"

definition mask_update ::
  "bool list \<Rightarrow> int list \<Rightarrow> int list \<Rightarrow> real list \<Rightarrow> nat \<Rightarrow> (int \<times> int \<times> real) option" where
  "mask_update active_mask labels time_indices scs b =
     (if active_mask ! b then Some (labels ! b, time_indices ! b, scs ! b) else None)"

definition hyps_wf :: "BatchedHyps \<Rightarrow> bool" where
  "hyps_wf h \<longleftrightarrow>
     0 < batch_size h \<and> 0 < max_length h \<and>
     length (current_lengths h) = batch_size h \<and>
     length (transcript h) = batch_size h \<and>
     length (timesteps h) = batch_size h \<and>
     length (scores h) = batch_size h \<and>
     length (last_timestep h) = batch_size h \<and>
     length (last_timestep_lasts h) = batch_size h \<and>
     batch_indices h = [0..<batch_size h] \<and>
     ones_batch h = replicate (batch_size h) 1 \<and>
     (\<forall>row \<in> set (transcript h). length row = max_length h) \<and>
     (\<forall>row \<in> set (timesteps h). length row = max_length h) \<and>
     (\<forall>n \<in> set (current_lengths h). n \<le> max_length h)"

definition valid_index_args :: "nat \<Rightarrow> nat list \<Rightarrow> int list \<Rightarrow> int list \<Rightarrow> real list \<Rightarrow> bool" where
  "valid_index_args B active_indices labels time_indices scs \<longleftrightarrow>
     distinct active_indices \<and> (\<forall>i \<in> set active_indices. i < B) \<and>
     length labels = length active_indices \<and>
     length time_indices = length active_indices \<and>
     length scs = length active_indices"

definition valid_mask_args :: "nat \<Rightarrow> bool list \<Rightarrow> int list \<Rightarrow> int list \<Rightarrow> real list \<Rightarrow> bool" where
  "valid_mask_args B active_mask labels time_indices scs \<longleftrightarrow>
     length active_mask = B \<and> length labels = B \<and> length time_indices = B \<and> length scs = B"

subsection \<open>Sequences of append calls\<close>

type_synonym index_args = "nat list \<times> int list \<times> int list \<times> real list"
type_synonym mask_args = "bool list \<times> int list \<times> int list \<times> real list"

text \<open>A decoding loop calls the append operation once per step; an exception ends the run.\<close>

fun run_index :: "BatchedHyps \<Rightarrow> index_args list \<Rightarrow> error + BatchedHyps" where
  "run_index h [] = Inr h"
| "run_index h ((a, l, t, s) # rest) = ebind (add_results h a l t s) (\<lambda>h'. run_index h' rest)"

fun run_masked :: "BatchedHyps \<Rightarrow> mask_args list \<Rightarrow> error + BatchedHyps" where
  "run_masked h [] = Inr h"
| "run_masked h ((m, l, t, s) # rest) =
     ebind (add_results_masked h m l t s) (\<lambda>h'. run_masked h' rest)"

text \<open>An index-based call and a mask-based call encode the same logical update when both are
  valid for the batch size and give every item the same label, time index and score
  increment, or both leave it inactive.\<close>

fun same_logical_updates :: "nat \<Rightarrow> index_args \<Rightarrow> mask_args \<Rightarrow> bool" where
  "same_logical_updates B (a, l, t, s) (m, l', t', s') \<longleftrightarrow>
     valid_index_args B a l t s \<and> valid_mask_args B m l' t' s' \<and>
     (\<forall>b \<in> set [0..<B]. index_update a l t s b = mask_update m l' t' s' b)"

fun valid_index_step :: "nat \<Rightarrow> index_args \<Rightarrow> bool" where
  "valid_index_step B (a, l, t, s) \<longleftrightarrow> valid_index_args B a l t s"

text \<open>A step that appends one entry to every item of the batch.\<close>

fun full_index_step :: "nat \<Rightarrow> index_args \<Rightarrow> bool" where
  "full_index_step B (a, l, t, s) \<longleftrightarrow> valid_index_args B a l t s \<and> set [0..<B] \<subseteq> set a"

subsection \<open>Example buffers\<close>

text \<open>The buffer that \<open>BatchedHyps(batch_size=2, init_length=2)\<close> constructs.\<close>

definition hyps_2x2 :: BatchedHyps where
  "hyps_2x2 = \<lparr> max_length = 2, current_lengths = [0, 0],
                 transcript = [[0, 0], [0, 0]], timesteps = [[0, 0], [0, 0]],
                 scores = [0, 0], last_timestep = [- 1, - 1], last_timestep_lasts = [0, 0],
                 batch_indices = [0, 1], ones_batch = [1, 1], batch_size = 2 \<rparr>"

text \<open>A buffer of two items holding one entry each: item 0 has label 3 at frame 0, item 1
  has label 4 at frame 1. Its capacity 2 is reached by the next append to either item.\<close>

definition hyps_2x2_used :: BatchedHyps where
  "hyps_2x2_used = \<lparr> max_length = 2, current_lengths = [1, 1],
                 transcript = [[3, 0], [4, 0]], timesteps = [[0, 0], [1, 0]],
                 scores = [- 1 / 2, - 1 / 4], last_timestep = [0, 1], last_timestep_lasts = [1, 1],
                 batch_indices = [0, 1], ones_batch = [1, 1], batch_size = 2 \<rparr>"

text \<open>Three index-based steps, each appending one entry to both items of a batch of two.\<close>

definition full_steps_3 :: "index_args list" where
  "full_steps_3 = [([0, 1], [3, 4], [0, 0], [0, 0]), ([1, 0], [5, 6], [2, 2], [0, 0]),
                   ([0, 1], [7, 8], [2, 3], [0, 0])]"

text \<open>The appends of labels 3, 5, 7 at frames 0, 2, 2 to item 0 of a batch of one.\<close>

definition steps_357 :: "index_args list" where
  "steps_357 = [([0], [3], [0], [0]), ([0], [5], [2], [0]), ([0], [7], [2], [0])]"

subsection \<open>\<open>Hypothesis\<close>, \<open>BatchedAlignments\<close> and \<open>batched_hyps_to_hypotheses\<close>\<close>

text \<open>
  The fields of the dataclass \<open>Hypothesis\<close> that the buffers fill or that the claims
  mention; \<open>length\<close> is \<open>length_field\<close> here. The remaining fields (\<open>text\<close>,
  \<open>dec_out\<close>, \<open>dec_state\<close>, \<open>token_confidence\<close>, \<open>word_confidence\<close>, \<open>y\<close>,
  \<open>lm_state\<close>, \<open>lm_scores\<close>, \<open>ngram_lm_state\<close>, \<open>tokens\<close>, \<open>last_token\<close>) keep
  their default \<open>None\<close> in all the code embedded here. The type \<open>'l\<close> is a logits vector,
  \<open>'c\<close> a frame confidence entry (a number, or a pair with duration confidence).
\<close>

record ('l, 'c) Hypothesis =
  score :: real
  y_sequence :: "int list"
  label_score :: "real option"
  blank_score :: "real option"
  token_scores :: "real list option"
  timestep :: "int list"
  alignments :: "('l \<times> int) list list option"
  frame_confidence :: "'c list list option"
  length_field :: int

text \<open>The constructor call \<open>Hypothesis(score=..., y_sequence=..., timestep=..., alignments=None,
  dec_state=None)\<close>: every other field takes its default, \<open>length\<close> the default 0.\<close>

definition make_Hypothesis :: "real \<Rightarrow> int list \<Rightarrow> int list \<Rightarrow> ('l, 'c) Hypothesis" where
  "make_Hypothesis sc ys ts =
     \<lparr> score = sc, y_sequence = ys, label_score = None, blank_score = None,
       token_scores = None, timestep = ts, alignments = None, frame_confidence = None,
       length_field = 0 \<rparr>"

record ('l, 'c) BatchedAlignments =
  al_with_frame_confidence :: bool
  al_with_duration_confidence :: bool
  al_with_alignments :: bool
  al_max_length :: nat
  al_timesteps :: "int list list"
  al_current_lengths :: "nat list"
  al_logits :: "'l list list"
  al_labels :: "int list list"
  al_frame_confidence :: "'c list list"

text \<open>\<open>xs[i]\<close> with a non-negative index.\<close>

definition nth_e :: "'a list \<Rightarrow> nat \<Rightarrow> error + 'a" where
  "nth_e xs i = (if i < length xs then Inr (xs ! i) else Inl IndexError)"

text \<open>The counts of \<open>torch.unique_consecutive(t, return_counts=True)\<close>: the lengths of the
  maximal runs of equal consecutive values.\<close>

fun group_counts :: "int \<Rightarrow> nat \<Rightarrow> int list \<Rightarrow> nat list" where
  "group_counts x n [] = [n]"
| "group_counts x n (y # ys) =
     (if x = y then group_counts x (Suc n) ys else n # group_counts y 1 ys)"

definition unique_consecutive_counts :: "int list \<Rightarrow> nat list" where
  "unique_consecutive_counts xs = (case xs of [] \<Rightarrow> [] | x # ys \<Rightarrow> group_counts x 1 ys)"

text \<open>The loop over \<open>grouped_counts\<close>: one list \<open>[row[start + j] for j in range(cnt)]\<close> per
  count, \<open>start\<close> advancing by the count.\<close>

fun alignment_groups :: "'a list \<Rightarrow> nat \<Rightarrow> nat list \<Rightarrow> error + 'a list list" where
  "alignment_groups row start [] = Inr []"
| "alignment_groups row start (cnt # cnts) =
     (if start + cnt \<le> length row
      then ebind (alignment_groups row (start + cnt) cnts)
             (\<lambda>rest. Inr (map (\<lambda>j. row ! (start + j)) [0..<cnt] # rest))
      else Inl IndexError)"

text \<open>The body of the loop \<open>for i in range(len(hypotheses))\<close>.\<close>

definition add_alignments ::
  "('l, 'c) BatchedAlignments \<Rightarrow> nat \<Rightarrow> ('l, 'c) Hypothesis \<Rightarrow> error + ('l, 'c) Hypothesis" where
  "add_alignments a i hyp =
     ebind (nth_e (al_current_lengths a) i) (\<lambda>n.
     ebind (nth_e (al_timesteps a) i) (\<lambda>ts_row.
     let counts = unique_consecutive_counts (take n ts_row) in
     ebind (if al_with_alignments a
            then ebind (nth_e (al_logits a) i) (\<lambda>logits_row.
                 ebind (nth_e (al_labels a) i) (\<lambda>labels_row.
                   alignment_groups (zip logits_row labels_row) 0 counts))
            else Inr []) (\<lambda>groups.
     ebind (if al_with_frame_confidence a
            then ebind (nth_e (al_frame_confidence a) i) (\<lambda>conf_row.
                 ebind (alignment_groups conf_row 0 counts) (\<lambda>g. Inr (Some g)))
            else Inr (frame_confidence hyp)) (\<lambda>conf.
       Inr (hyp \<lparr> alignments := Some groups, frame_confidence := conf \<rparr>)))))"

fun map_e :: "('a \<Rightarrow> error + 'b) \<Rightarrow> 'a list \<Rightarrow> error + 'b list" where
  "map_e f [] = Inr []"
| "map_e f (x # xs) = ebind (f x) (\<lambda>y. ebind (map_e f xs) (\<lambda>ys. Inr (y # ys)))"

definition batched_hyps_to_hypotheses ::
  "BatchedHyps \<Rightarrow> ('l, 'c) BatchedAlignments option \<Rightarrow> int option
     \<Rightarrow> error + ('l, 'c) Hypothesis list" where
  "batched_hyps_to_hypotheses batched_hyps alignments_opt batch_size_opt =
     (if \<not> (case batch_size_opt of None \<Rightarrow> True
              | Some n \<Rightarrow> n \<le> int (length (scores batched_hyps)))
      then Inl AssertionError
      else
        let num_hyps = (case batch_size_opt of None \<Rightarrow> length (scores batched_hyps)
                        | Some n \<Rightarrow> nat n) in
        ebind (map_e (\<lambda>i.
                 ebind (nth_e (scores batched_hyps) i) (\<lambda>sc.
                 ebind (nth_e (current_lengths batched_hyps) i) (\<lambda>n.
                 ebind (nth_e (transcript batched_hyps) i) (\<lambda>tr_row.
                 ebind (nth_e (timesteps batched_hyps) i) (\<lambda>ts_row.
                   Inr (make_Hypothesis sc (take n tr_row) (take n ts_row)))))))
               [0..<num_hyps]) (\<lambda>hypotheses.
        case alignments_opt of
          None \<Rightarrow> Inr hypotheses
        | Some a \<Rightarrow> map_e (\<lambda>(i, hyp). add_alignments a i hyp)
                      (zip [0..<length hypotheses] hypotheses)))"

text \<open>A decoding loop followed by the materializer.\<close>

definition decode_greedy ::
  "BatchedHyps \<Rightarrow> index_args list \<Rightarrow> error + (real list, real) Hypothesis list" where
  "decode_greedy h steps = ebind (run_index h steps) (\<lambda>h'. batched_hyps_to_hypotheses h' None None)"

text \<open>The shape of an alignment buffer for a batch of \<open>B\<close> items, as the constructor and
  \<open>_allocate_more\<close> keep it: every stored tensor has \<open>B\<close> rows of \<open>_max_length\<close> entries
  and no length exceeds \<open>_max_length\<close>.\<close>

definition al_wf :: "('l, 'c) BatchedAlignments \<Rightarrow> nat \<Rightarrow> bool" where
  "al_wf a B \<longleftrightarrow>
     length (al_current_lengths a) = B \<and> length (al_timesteps a) = B \<and>
     (\<forall>n \<in> set (al_current_lengths a). n \<le> al_max_length a) \<and>
     (\<forall>row \<in> set (al_timesteps a). length row = al_max_length a) \<and>
     (al_with_alignments a \<longrightarrow>
        length (al_logits a) = B \<and> length (al_labels a) = B \<and>
        (\<forall>row \<in> set (al_logits a). length row = al_max_length a) \<and>
        (\<forall>row \<in> set (al_labels a). length row = al_max_length a)) \<and>
     (al_with_frame_confidence a \<longrightarrow>
        length (al_frame_confidence a) = B \<and>
        (\<forall>row \<in> set (al_frame_confidence a). length row = al_max_length a))"

subsection \<open>Filling a \<open>BatchedAlignments\<close> buffer\<close>

text \<open>
  The constructor with \<open>store_frame_confidence\<close> and \<open>with_duration_confidence\<close> at their
  default \<open>False\<close>: the tensors that are not stored stay the empty tensor
  \<open>torch.zeros(0)\<close>. A logits vector is a list of \<open>logits_dim\<close> numbers.
\<close>

definition BatchedAlignments_init ::
  "int \<Rightarrow> nat \<Rightarrow> int \<Rightarrow> bool \<Rightarrow> error + (real list, real) BatchedAlignments" where
  "BatchedAlignments_init batch_sz logits_dim init_length store_alignments =
     (if init_length \<le> 0 then Inl ValueError
      else if batch_sz \<le> 0 then Inl ValueError
      else Inr \<lparr> al_with_frame_confidence = False,
                 al_with_duration_confidence = False,
                 al_with_alignments = store_alignments,
                 al_max_length = nat init_length,
                 al_timesteps = replicate (nat batch_sz) (replicate (nat init_length) 0),
                 al_current_lengths = replicate (nat batch_sz) 0,
                 al_logits = (if store_alignments
                    then replicate (nat batch_sz)
                           (replicate (nat init_length) (replicate logits_dim 0))
                    else []),
                 al_labels = (if store_alignments
                    then replicate (nat batch_sz) (replicate (nat init_length) 0)
                    else []),
                 al_frame_confidence = [] \<rparr>)"

definition al_allocate_more ::
  "(real list, 'c::zero) BatchedAlignments \<Rightarrow> (real list, 'c) BatchedAlignments" where
  "al_allocate_more a =
     a \<lparr> al_timesteps := cat_zeros (al_timesteps a),
         al_logits := (if al_with_alignments a
            then map (\<lambda>row. row @ map (map (\<lambda>_. 0)) row) (al_logits a) else al_logits a),
         al_labels := (if al_with_alignments a then cat_zeros (al_labels a) else al_labels a),
         al_frame_confidence := (if al_with_frame_confidence a
            then map (\<lambda>row. row @ map (\<lambda>_. 0) row) (al_frame_confidence a)
            else al_frame_confidence a),
         al_max_length := al_max_length a * 2 \<rparr>"

text \<open>\<open>BatchedAlignments.add_results_\<close>; the optional arguments are \<open>None\<close> when absent.
  The width of the logits vectors written is not compared with that of the stored ones.\<close>

definition al_add_results ::
  "(real list, 'c::zero) BatchedAlignments \<Rightarrow> nat list \<Rightarrow> int list \<Rightarrow>
     real list list option \<Rightarrow> int list option \<Rightarrow> 'c list option
     \<Rightarrow> error + (real list, 'c) BatchedAlignments" where
  "al_add_results a0 active_indices time_indices logits_opt labels_opt confidence_opt =
     (if length active_indices = 0 then Inr a0
      else ebind (tensor_max (al_current_lengths a0)) (\<lambda>m.
        let a = (if m \<ge> al_max_length a0 then al_allocate_more a0 else a0) in
        ebind (gather (al_current_lengths a) active_indices) (\<lambda>active_lengths.
        ebind (index_put2 (al_timesteps a) active_indices active_lengths time_indices)
          (\<lambda>timesteps'.
        ebind (case (al_with_alignments a, logits_opt, labels_opt) of
                 (True, Some logits, Some labels) \<Rightarrow>
                   ebind (index_put2 (al_logits a) active_indices active_lengths logits)
                     (\<lambda>logits'.
                   ebind (index_put2 (al_labels a) active_indices active_lengths labels)
                     (\<lambda>labels'. Inr (logits', labels')))
               | _ \<Rightarrow> Inr (al_logits a, al_labels a)) (\<lambda>(logits', labels').
        ebind (case (al_with_frame_confidence a, confidence_opt) of
                 (True, Some confidence) \<Rightarrow>
                   index_put2 (al_frame_confidence a) active_indices active_lengths confidence
               | _ \<Rightarrow> Inr (al_frame_confidence a)) (\<lambda>confidence'.
        ebind (index_put (al_current_lengths a) active_indices (map Suc active_lengths))
          (\<lambda>lengths'.
          Inr (a \<lparr> al_timesteps := timesteps',
                    al_logits := logits',
                    al_labels := labels',
                    al_frame_confidence := confidence',
                    al_current_lengths := lengths' \<rparr>))))))))"

text \<open>One call per recorded frame, each with a time index, a logits vector and a label for
  the active items.\<close>

type_synonym al_args = "nat list \<times> int list \<times> real list list \<times> int list"

fun al_run ::
  "(real list, 'c::zero) BatchedAlignments \<Rightarrow> al_args list
     \<Rightarrow> error + (real list, 'c) BatchedAlignments" where
  "al_run a [] = Inr a"
| "al_run a ((act, t, lg, lb) # rest) =
     ebind (al_add_results a act t (Some lg) (Some lb) None) (\<lambda>a'. al_run a' rest)"

text \<open>A decoding loop that fills both buffers, followed by the materializer.\<close>

definition decode_with_alignments ::
  "BatchedHyps \<Rightarrow> index_args list \<Rightarrow> (real list, 'c::zero) BatchedAlignments \<Rightarrow> al_args list
     \<Rightarrow> error + (real list, 'c) Hypothesis list" where
  "decode_with_alignments h steps a al_steps =
     ebind (run_index h steps) (\<lambda>h'.
     ebind (al_run a al_steps) (\<lambda>a'. batched_hyps_to_hypotheses h' (Some a') None))"

text \<open>The recorded trace of item \<open>i\<close>: \<open>timesteps[i, :current_lengths[i]]\<close> and the labels
  stored beside it.\<close>

definition recorded_frames :: "('l, 'c) BatchedAlignments \<Rightarrow> nat \<Rightarrow> int list" where
  "recorded_frames a i = take (al_current_lengths a ! i) (al_timesteps a ! i)"

definition recorded_labels :: "('l, 'c) BatchedAlignments \<Rightarrow> nat \<Rightarrow> int list" where
  "recorded_labels a i = take (al_current_lengths a ! i) (al_labels a ! i)"
subsection \<open>Example alignment buffers\<close>

text \<open>
  Alignment buffers for a batch of one and logits of dimension 0, filled from capacity 1 by
  one call per recorded frame. The first records the frames 0, 0, 1, 2, 2, 2 with the labels
  blank (1024), 3, blank, 5, blank, 7; the second is given the time indices 0, 1, 0.
\<close>

definition al_steps_6 :: "al_args list" where
  "al_steps_6 = [([0], [0], [[]], [1024]), ([0], [0], [[]], [3]), ([0], [1], [[]], [1024]),
                 ([0], [2], [[]], [5]), ([0], [2], [[]], [1024]), ([0], [2], [[]], [7])]"

definition al_trace_6 :: "(real list, real) BatchedAlignments" where
  "al_trace_6 = \<lparr> al_with_frame_confidence = False, al_with_duration_confidence = False,
       al_with_alignments = True, al_max_length = 8,
       al_timesteps = [[0, 0, 1, 2, 2, 2, 0, 0]], al_current_lengths = [6],
       al_logits = [[[], [], [], [], [], [], [], []]],
       al_labels = [[1024, 3, 1024, 5, 1024, 7, 0, 0]],
       al_frame_confidence = [] \<rparr>"

definition al_steps_010 :: "al_args list" where
  "al_steps_010 = [([0], [0], [[]], [1024]), ([0], [1], [[]], [3]), ([0], [0], [[]], [1024])]"

definition al_trace_010 :: "(real list, real) BatchedAlignments" where
  "al_trace_010 = \<lparr> al_with_frame_confidence = False, al_with_duration_confidence = False,
       al_with_alignments = True, al_max_length = 4,
       al_timesteps = [[0, 1, 0, 0]], al_current_lengths = [3],
       al_logits = [[[], [], [], []]],
       al_labels = [[1024, 3, 1024, 0]],
       al_frame_confidence = [] \<rparr>"

definition hyps_1x1 :: BatchedHyps where
  "hyps_1x1 = \<lparr> max_length = 1, current_lengths = [0],
                 transcript = [[0]], timesteps = [[0]],
                 scores = [0], last_timestep = [- 1], last_timestep_lasts = [0],
                 batch_indices = [0], ones_batch = [1], batch_size = 1 \<rparr>"

text \<open>The greedy buffer after the appends \<open>steps_357\<close> to \<open>hyps_1x1\<close>.\<close>

definition hyps_357 :: BatchedHyps where
  "hyps_357 = \<lparr> max_length = 4, current_lengths = [3],
                 transcript = [[3, 5, 7, 0]], timesteps = [[0, 2, 2, 0]],
                 scores = [0], last_timestep = [2], last_timestep_lasts = [2],
                 batch_indices = [0], ones_batch = [1], batch_size = 1 \<rparr>"

text \<open>The alignment buffer that \<open>BatchedAlignments(batch_size=1, logits_dim=0, init_length=1)\<close>
  constructs.\<close>

definition al_1x1 :: "(real list, real) BatchedAlignments" where
  "al_1x1 = \<lparr> al_with_frame_confidence = False, al_with_duration_confidence = False,
       al_with_alignments = True, al_max_length = 1,
       al_timesteps = [[0]], al_current_lengths = [0],
       al_logits = [[[]]], al_labels = [[0]], al_frame_confidence = [] \<rparr>"
subsection \<open>\<open>BeamBatchedHyps\<close>\<close>

text \<open>
  A tensor of shape \<open>(batch_size, beam_size)\<close> is a list of rows, one per batch item, with
  one entry per beam; a tensor of shape \<open>(batch_size, beam_size, _max_length)\<close> has a list in
  each entry. The lengths are \<open>torch.long\<close> values and are \<open>int\<close> here, since the code
  computes indices such as \<open>current_lengths - 2\<close> from them.

  The index tensors \<open>_batch_indices\<close>, \<open>_beam_indices\<close> and \<open>_transcript_indices\<close> are the
  ranges \<open>arange(batch_size)\<close>, \<open>arange(beam_size)\<close> and \<open>arange(_max_length)\<close>; the
  constructor and \<open>_allocate_more\<close> are the only code that assigns them, so the record holds
  the three sizes and the operations below range over \<open>[0..<n]\<close>. \<open>device\<close> and
  \<open>_ones_batch\<close> are not used by the code embedded here.
\<close>

record ('l, 'c) BeamBatchedHyps =
  bm_max_length :: nat
  bm_beam_size :: nat
  bm_batch_size :: nat
  bm_blank_tensor :: int
  bm_current_lengths :: "int list list"
  bm_transcripts :: "int list list list"
  bm_timesteps :: "int list list list"
  bm_timesteps_end :: "int list list list"
  bm_scores :: "real list list"
  bm_last_timestep :: "int list list"
  bm_last_timestep_lasts :: "int list list"
  bm_label_scores :: "real list list"
  bm_blank_scores :: "real list list"
  bm_total_scores :: "real list list list"
  bm_token_scores :: "real list list list"
  bm_full_current_lengths :: "int list list"
  bm_full_timesteps :: "int list list list"
  bm_full_transcripts :: "int list list list"
  bm_last_timestep_repetitions :: "int list list"
  bm_max_timesteps :: "int list"
  bm_best_hyps :: "('l, 'c) Hypothesis list list"

text \<open>\<open>torch.zeros\<close> and \<open>torch.full\<close> raise on a negative dimension; \<open>beam_size\<close> is not
  checked by the constructor itself.\<close>

definition BeamBatchedHyps_init ::
  "int \<Rightarrow> int \<Rightarrow> int list \<Rightarrow> int \<Rightarrow> error + ('l, 'c) BeamBatchedHyps" where
  "BeamBatchedHyps_init batch_sz beam_sz max_timesteps init_length =
     (if init_length \<le> 0 then Inl ValueError
      else if batch_sz \<le> 0 then Inl ValueError
      else if beam_sz < 0 then Inl RuntimeError
      else
        let B = nat batch_sz; K = nat beam_sz; L = nat init_length in
        Inr \<lparr> bm_max_length = L,
              bm_beam_size = K,
              bm_batch_size = B,
              bm_blank_tensor = 1024,
              bm_current_lengths = replicate B (replicate K 0),
              bm_transcripts = replicate B (replicate K (replicate L 0)),
              bm_timesteps = replicate B (replicate K (replicate L 0)),
              bm_timesteps_end = replicate B (replicate K (replicate L 0)),
              bm_scores = replicate B (replicate K 0),
              bm_last_timestep = replicate B (replicate K 0),
              bm_last_timestep_lasts = replicate B (replicate K 0),
              bm_label_scores = replicate B (replicate K 0),
              bm_blank_scores = replicate B (replicate K 0),
              bm_total_scores = replicate B (replicate K (replicate L 0)),
              bm_token_scores = replicate B (replicate K (replicate L 0)),
              bm_full_current_lengths = replicate B (replicate K 0),
              bm_full_timesteps = replicate B (replicate K (replicate L 0)),
              bm_full_transcripts = replicate B (replicate K (replicate L 1024)),
              bm_last_timestep_repetitions = replicate B (replicate K 0),
              bm_max_timesteps = max_timesteps,
              bm_best_hyps = replicate B [] \<rparr>)"

text \<open>\<open>t.fill_(v)\<close> on a tensor with two dimensions and with three.\<close>

definition fill2 :: "'a \<Rightarrow> 'b list list \<Rightarrow> 'a list list" where
  "fill2 v m = map (map (\<lambda>_. v)) m"

definition fill3 :: "'a \<Rightarrow> 'b list list list \<Rightarrow> 'a list list list" where
  "fill3 v m = map (map (map (\<lambda>_. v))) m"

definition bm_clear :: "('l, 'c) BeamBatchedHyps \<Rightarrow> ('l, 'c) BeamBatchedHyps" where
  "bm_clear h = h \<lparr> bm_current_lengths := fill2 0 (bm_current_lengths h),
                     bm_transcripts := fill3 0 (bm_transcripts h),
                     bm_timesteps := fill3 0 (bm_timesteps h),
                     bm_scores := fill2 0 (bm_scores h),
                     bm_last_timestep := fill2 (- 1) (bm_last_timestep h),
                     bm_last_timestep_lasts := fill2 0 (bm_last_timestep_lasts h) \<rparr>"

text \<open>\<open>torch.cat((t, torch.full_like(t, v)), dim=2)\<close>; \<open>zeros_like\<close> is the case \<open>v = 0\<close>.\<close>

definition cat_fill :: "'a \<Rightarrow> 'a list list list \<Rightarrow> 'a list list list" where
  "cat_fill v m = map (map (\<lambda>row. row @ replicate (length row) v)) m"

definition bm_allocate_more :: "('l, 'c) BeamBatchedHyps \<Rightarrow> ('l, 'c) BeamBatchedHyps" where
  "bm_allocate_more h =
     h \<lparr> bm_timesteps := cat_fill 0 (bm_timesteps h),
         bm_transcripts := cat_fill 0 (bm_transcripts h),
         bm_timesteps_end := cat_fill 0 (bm_timesteps_end h),
         bm_full_timesteps := cat_fill 0 (bm_full_timesteps h),
         bm_full_transcripts := cat_fill (bm_blank_tensor h) (bm_full_transcripts h),
         bm_total_scores := cat_fill 0 (bm_total_scores h),
         bm_token_scores := cat_fill 0 (bm_token_scores h),
         bm_max_length := bm_max_length h * 2 \<rparr>"

text \<open>Whether a nested list has the shape \<open>(B, K)\<close> in its first two dimensions.\<close>

definition grid :: "nat \<Rightarrow> nat \<Rightarrow> 'a list list \<Rightarrow> bool" where
  "grid B K m \<longleftrightarrow> length m = B \<and> (\<forall>row \<in> set m. length row = K)"

text \<open>An elementwise operation on two tensors of shape \<open>(B, K)\<close>.\<close>

definition ew2 ::
  "nat \<Rightarrow> nat \<Rightarrow> ('a \<Rightarrow> 'b \<Rightarrow> 'c) \<Rightarrow> 'a list list \<Rightarrow> 'b list list \<Rightarrow> error + 'c list list" where
  "ew2 B K f xs ys =
     (if grid B K xs \<and> grid B K ys then Inr (map2 (map2 f) xs ys) else Inl RuntimeError)"

text \<open>Python's index into a sequence of length \<open>n\<close>: a negative index counts from the end.\<close>

definition py_index :: "nat \<Rightarrow> int \<Rightarrow> nat option" where
  "py_index n i =
     (if 0 \<le> i \<and> i < int n then Some (nat i)
      else if - int n \<le> i \<and> i < 0 then Some (nat (int n + i))
      else None)"

definition idx_ok :: "nat \<Rightarrow> nat \<Rightarrow> 'a list list list \<Rightarrow> int list list \<Rightarrow> bool" where
  "idx_ok B K X idx \<longleftrightarrow>
     (\<forall>b \<in> set [0..<B]. \<forall>k \<in> set [0..<K].
        py_index (length (X ! b ! k)) (idx ! b ! k) \<noteq> None)"

text \<open>\<open>X[_batch_indices, _beam_indices, idx]\<close>: the entry \<open>X[b, k, idx[b, k]]\<close> for every
  \<open>b, k\<close>; first the values read, then the read with its checks.\<close>

definition get3_cells :: "nat \<Rightarrow> nat \<Rightarrow> 'a list list list \<Rightarrow> int list list \<Rightarrow> 'a list list" where
  "get3_cells B K X idx =
     map (\<lambda>b. map (\<lambda>k.
       (X ! b ! k) ! the (py_index (length (X ! b ! k)) (idx ! b ! k))) [0..<K]) [0..<B]"

definition get3 ::
  "nat \<Rightarrow> nat \<Rightarrow> 'a list list list \<Rightarrow> int list list \<Rightarrow> error + 'a list list" where
  "get3 B K X idx =
     (if \<not> (grid B K X \<and> grid B K idx) then Inl RuntimeError
      else if \<not> idx_ok B K X idx then Inl IndexError
      else Inr (get3_cells B K X idx))"

text \<open>\<open>X[_batch_indices, _beam_indices, idx] = vals\<close>.\<close>

definition put3_cells ::
  "nat \<Rightarrow> nat \<Rightarrow> 'a list list list \<Rightarrow> int list list \<Rightarrow> 'a list list \<Rightarrow> 'a list list list" where
  "put3_cells B K X idx vals =
     map (\<lambda>b. map (\<lambda>k.
       (X ! b ! k)[the (py_index (length (X ! b ! k)) (idx ! b ! k)) := vals ! b ! k])
       [0..<K]) [0..<B]"

definition put3 ::
  "nat \<Rightarrow> nat \<Rightarrow> 'a list list list \<Rightarrow> int list list \<Rightarrow> 'a list list \<Rightarrow> error + 'a list list list" where
  "put3 B K X idx vals =
     (if \<not> (grid B K X \<and> grid B K idx \<and> grid B K vals) then Inl RuntimeError
      else if \<not> idx_ok B K X idx then Inl IndexError
      else Inr (put3_cells B K X idx vals))"

text \<open>
  The assignment \<open>_token_scores[token_scores_max_blank_mask] = blank_logps_per_blank[mask]\<close>.
  The mask on \<open>blank_logps_per_blank\<close> has the shape \<open>(B, K, num_blanks.max())\<close> and selects
  the entries \<open>j < num_blanks[b, k]\<close>, so \<open>blank_logps_per_blank\<close> must have that shape; the
  mask on \<open>_token_scores\<close> selects the cells \<open>blank_start[b, k] \<le> i < blank_start[b, k] +
  num_blanks[b, k]\<close> that exist. Both selections are read in row-major order, and the
  assignment raises unless they have the same number of elements, that is unless every range
  of cells lies inside its row.
\<close>

definition blank_cells_ok :: "nat \<Rightarrow> nat \<Rightarrow> real list list list \<Rightarrow> int list list \<Rightarrow> int list list \<Rightarrow> bool" where
  "blank_cells_ok B K X start nb \<longleftrightarrow>
     (\<forall>b \<in> set [0..<B]. \<forall>k \<in> set [0..<K].
        nb ! b ! k \<le> 0 \<or>
        (0 \<le> start ! b ! k \<and> start ! b ! k + nb ! b ! k \<le> int (length (X ! b ! k))))"

definition blank_score_cells ::
  "nat \<Rightarrow> nat \<Rightarrow> real list list list \<Rightarrow> int list list \<Rightarrow> int list list \<Rightarrow> real list list list
     \<Rightarrow> real list list list" where
  "blank_score_cells B K X start nb per_blank =
     map (\<lambda>b. map (\<lambda>k.
       map (\<lambda>i. if start ! b ! k \<le> int i \<and> int i < start ! b ! k + nb ! b ! k
                 then per_blank ! b ! k ! nat (int i - start ! b ! k)
                 else X ! b ! k ! i)
         [0..<length (X ! b ! k)]) [0..<K]) [0..<B]"

definition put_blank_scores ::
  "nat \<Rightarrow> nat \<Rightarrow> real list list list \<Rightarrow> int list list \<Rightarrow> int list list \<Rightarrow> real list list list
     \<Rightarrow> error + real list list list" where
  "put_blank_scores B K X start nb per_blank =
     (if \<not> (grid B K X \<and> grid B K start \<and> grid B K nb \<and> grid B K per_blank)
      then Inl RuntimeError
      else case tensor_max (concat nb) of
        Inl e \<Rightarrow> Inl e
      | Inr mx \<Rightarrow>
          if \<not> (\<forall>row \<in> set per_blank. \<forall>v \<in> set row. int (length v) = mx) then Inl IndexError
          else if \<not> blank_cells_ok B K X start nb then Inl RuntimeError
          else Inr (blank_score_cells B K X start nb per_blank))"

text \<open>
  \<open>append_labels\<close>. The two length tensors are replaced first, then the storage grows once
  if the largest new full length exceeds \<open>_max_length - 1\<close>; the assertions on the shapes come
  after that. \<open>_calculate_score\<close> is the sum of its two arguments. The division by
  \<open>_full_current_lengths\<close> is the division of \<open>real\<close>; the lengths are at least 1 whenever the
  old lengths and \<open>num_blanks\<close> are not negative.
\<close>

definition calculate_score :: "real \<Rightarrow> real \<Rightarrow> real" where
  "calculate_score label_logps blank_logps = label_logps + blank_logps"

definition append_labels ::
  "('l, 'c) BeamBatchedHyps \<Rightarrow> int list list \<Rightarrow> real list list \<Rightarrow> real list list \<Rightarrow>
     real list list list \<Rightarrow> int list list \<Rightarrow> error + ('l, 'c) BeamBatchedHyps" where
  "append_labels h0 labels label_logps blank_logps blank_logps_per_blank num_blanks =
     (let B = bm_batch_size h0; K = bm_beam_size h0;
          blank_start_indices = bm_full_current_lengths h0;
          cur = map (map (\<lambda>c. c + 1)) (bm_current_lengths h0) in
      ebind (ew2 B K (\<lambda>f n. f + n + 1) (bm_full_current_lengths h0) num_blanks) (\<lambda>full.
      ebind (tensor_max (concat full)) (\<lambda>mx.
      let h1 = h0 \<lparr> bm_current_lengths := cur, bm_full_current_lengths := full \<rparr>;
          h = (if mx > int (bm_max_length h0) - 1 then bm_allocate_more h1 else h1);
          cur_m1 = map (map (\<lambda>c. c - 1)) cur;
          cur_m2 = map (map (\<lambda>c. c - 2)) cur;
          full_m1 = map (map (\<lambda>c. c - 1)) full in
      if \<not> (grid B K labels \<and> grid B K label_logps \<and> grid B K blank_logps \<and>
              grid B K num_blanks)
      then Inl AssertionError
      else
      ebind (put3 B K (bm_transcripts h) cur_m1 labels) (\<lambda>transcripts'.
      ebind (ew2 B K (+) (bm_label_scores h) label_logps) (\<lambda>label_scores'.
      ebind (ew2 B K (+) (bm_blank_scores h) blank_logps) (\<lambda>blank_scores'.
      ebind (ew2 B K calculate_score label_logps blank_logps) (\<lambda>summed.
      ebind (ew2 B K (\<lambda>s n. s / real_of_int n) summed full) (\<lambda>score.
      ebind (ew2 B K (+) (bm_scores h) score) (\<lambda>scores'.
      ebind (get3 B K (bm_timesteps_end h) cur_m2) (\<lambda>prev_end.
      ebind (put3 B K (bm_timesteps h) cur_m1 prev_end) (\<lambda>timesteps'.
      ebind (ew2 B K (+) prev_end num_blanks) (\<lambda>new_end.
      ebind (put3 B K (bm_timesteps_end h) cur_m1 new_end) (\<lambda>timesteps_end'.
      ebind (put3 B K (bm_full_transcripts h) full_m1 labels) (\<lambda>full_transcripts'.
      ebind (get3 B K timesteps_end' cur_m1) (\<lambda>end_now.
      ebind (put3 B K (bm_full_timesteps h) full_m1 end_now) (\<lambda>full_timesteps'.
      ebind (put3 B K (bm_total_scores h) cur_m1 score) (\<lambda>total_scores'.
      ebind (if \<not> (\<forall>row \<in> set num_blanks. \<forall>n \<in> set row. n = 0)
             then put_blank_scores B K (bm_token_scores h) blank_start_indices num_blanks
                    blank_logps_per_blank
             else Inr (bm_token_scores h)) (\<lambda>token_scores1.
      ebind (put3 B K token_scores1 full_m1 label_logps) (\<lambda>token_scores'.
      ebind (ew2 B K (+) (bm_last_timestep h) num_blanks) (\<lambda>last_timestep'.
      ebind (ew2 B K (\<lambda>n r. if n = 0 then r + 1 else 1) num_blanks
               (bm_last_timestep_repetitions h)) (\<lambda>repetitions'.
        Inr (h \<lparr> bm_transcripts := transcripts',
                  bm_label_scores := label_scores',
                  bm_blank_scores := blank_scores',
                  bm_scores := scores',
                  bm_timesteps := timesteps',
                  bm_timesteps_end := timesteps_end',
                  bm_full_transcripts := full_transcripts',
                  bm_full_timesteps := full_timesteps',
                  bm_total_scores := total_scores',
                  bm_token_scores := token_scores',
                  bm_last_timestep := last_timestep',
                  bm_last_timestep_repetitions := repetitions' \<rparr>))))))))))))))))))))))"

text \<open>
  \<open>t.gather(dim=1, index=beam_idx)\<close>: the result has the shape of the index, entry
  \<open>(b, k)\<close> is \<open>t[b, beam_idx[b, k]]\<close>; an index outside \<open>0 \<le> j < K\<close> raises. With the index
  expanded to \<open>_max_length\<close> entries the rows are gathered whole, cut to \<open>_max_length\<close>.
\<close>

definition gather2 :: "'a list list \<Rightarrow> int list list \<Rightarrow> error + 'a list list" where
  "gather2 m idx =
     (if length idx \<le> length m \<and>
         (\<forall>b \<in> set [0..<length idx]. \<forall>j \<in> set (idx ! b). 0 \<le> j \<and> j < int (length (m ! b)))
      then Inr (map (\<lambda>b. map (\<lambda>j. m ! b ! nat j) (idx ! b)) [0..<length idx])
      else Inl RuntimeError)"

definition gather3 :: "nat \<Rightarrow> 'a list list list \<Rightarrow> int list list \<Rightarrow> error + 'a list list list" where
  "gather3 L m idx =
     (if length idx \<le> length m \<and>
         (\<forall>b \<in> set [0..<length idx]. \<forall>j \<in> set (idx ! b). 0 \<le> j \<and> j < int (length (m ! b))) \<and>
         (\<forall>rows \<in> set m. \<forall>row \<in> set rows. L \<le> length row)
      then Inr (map (\<lambda>b. map (\<lambda>j. take L (m ! b ! nat j)) (idx ! b)) [0..<length idx])
      else Inl RuntimeError)"

text \<open>
  The first part of \<open>update_beam\<close>, up to the call of \<open>append_labels\<close>. The three assertions
  on the tensors just gathered hold by the shape of the index; the fourth looks at
  \<open>_full_transcripts\<close> before it is gathered. \<open>last_timestep_lasts\<close> is not gathered.
\<close>

definition update_beam_reorder ::
  "('l, 'c) BeamBatchedHyps \<Rightarrow> int list list \<Rightarrow> error + ('l, 'c) BeamBatchedHyps" where
  "update_beam_reorder h beam_idx =
     (let L = bm_max_length h in
      ebind (gather2 (bm_scores h) beam_idx) (\<lambda>scores'.
      ebind (gather2 (bm_last_timestep h) beam_idx) (\<lambda>last_timestep'.
      ebind (gather2 (bm_current_lengths h) beam_idx) (\<lambda>current_lengths'.
      ebind (gather2 (bm_last_timestep_repetitions h) beam_idx) (\<lambda>repetitions'.
      ebind (gather3 L (bm_timesteps h) beam_idx) (\<lambda>timesteps'.
      ebind (gather3 L (bm_transcripts h) beam_idx) (\<lambda>transcripts'.
      ebind (gather3 L (bm_timesteps_end h) beam_idx) (\<lambda>timesteps_end'.
      ebind (gather3 L (bm_full_timesteps h) beam_idx) (\<lambda>full_timesteps'.
      if \<not> (\<forall>rows \<in> set (bm_full_transcripts h). \<forall>row \<in> set rows. length row = L)
      then Inl AssertionError
      else
      ebind (gather2 (bm_label_scores h) beam_idx) (\<lambda>label_scores'.
      ebind (gather2 (bm_blank_scores h) beam_idx) (\<lambda>blank_scores'.
      ebind (gather3 L (bm_total_scores h) beam_idx) (\<lambda>total_scores'.
      ebind (gather3 L (bm_token_scores h) beam_idx) (\<lambda>token_scores'.
      ebind (gather2 (bm_full_current_lengths h) beam_idx) (\<lambda>full_current_lengths'.
      ebind (gather3 L (bm_full_transcripts h) beam_idx) (\<lambda>full_transcripts'.
        Inr (h \<lparr> bm_scores := scores',
                  bm_last_timestep := last_timestep',
                  bm_current_lengths := current_lengths',
                  bm_last_timestep_repetitions := repetitions',
                  bm_timesteps := timesteps',
                  bm_transcripts := transcripts',
                  bm_timesteps_end := timesteps_end',
                  bm_full_timesteps := full_timesteps',
                  bm_label_scores := label_scores',
                  bm_blank_scores := blank_scores',
                  bm_total_scores := total_scores',
                  bm_token_scores := token_scores',
                  bm_full_current_lengths := full_current_lengths',
                  bm_full_transcripts := full_transcripts' \<rparr>))))))))))))))))"

text \<open>\<open>update_beam\<close>; \<open>blank_logps_per_blank.squeeze(-1)\<close> drops a last dimension of size 1,
  which the masks of \<open>append_labels\<close> drop as well.\<close>

definition update_beam ::
  "('l, 'c) BeamBatchedHyps \<Rightarrow> int list list \<Rightarrow> real list list \<Rightarrow> real list list \<Rightarrow>
     real list list list \<Rightarrow> int list list \<Rightarrow> int list list \<Rightarrow> error + ('l, 'c) BeamBatchedHyps" where
  "update_beam h labels label_logps blank_logps blank_logps_per_blank num_blanks beam_idx =
     ebind (update_beam_reorder h beam_idx) (\<lambda>h'.
       append_labels h' labels label_logps blank_logps blank_logps_per_blank num_blanks)"

text \<open>
  \<open>sorted(xs, key=..., reverse=True)\<close>: the list is reversed, sorted stably in ascending
  order of the key and reversed again, so that elements with equal keys keep their order.
\<close>

definition sorted_reverse :: "('a \<Rightarrow> real) \<Rightarrow> 'a list \<Rightarrow> 'a list" where
  "sorted_reverse key xs = rev (sort_key key (rev xs))"

text \<open>\<open>get_best_hyps\<close>: \<open>sorted_hyps[0]\<close> raises \<open>IndexError\<close> on an empty list, and the
  exception ends the loop over the batch.\<close>

definition get_best_hyps :: "('l, 'c) BeamBatchedHyps \<Rightarrow> error + ('l, 'c) Hypothesis list" where
  "get_best_hyps h =
     map_e (\<lambda>batch_idx.
        ebind (nth_e (bm_best_hyps h) batch_idx) (\<lambda>hyps.
        nth_e (sorted_reverse score hyps) 0))
       [0..<bm_batch_size h]"

subsection \<open>Shapes of the beam buffer\<close>

definition grid3 :: "nat \<Rightarrow> nat \<Rightarrow> nat \<Rightarrow> 'a list list list \<Rightarrow> bool" where
  "grid3 B K L m \<longleftrightarrow> grid B K m \<and> (\<forall>rows \<in> set m. \<forall>row \<in> set rows. length row = L)"

text \<open>The shapes that the constructor gives the tensors: \<open>(batch_size, beam_size)\<close> and
  \<open>(batch_size, beam_size, _max_length)\<close>.\<close>

definition beam_shape :: "('l, 'c) BeamBatchedHyps \<Rightarrow> bool" where
  "beam_shape h \<longleftrightarrow>
     0 < bm_batch_size h \<and> 0 < bm_max_length h \<and>
     grid (bm_batch_size h) (bm_beam_size h) (bm_current_lengths h) \<and>
     grid (bm_batch_size h) (bm_beam_size h) (bm_scores h) \<and>
     grid (bm_batch_size h) (bm_beam_size h) (bm_last_timestep h) \<and>
     grid (bm_batch_size h) (bm_beam_size h) (bm_last_timestep_lasts h) \<and>
     grid (bm_batch_size h) (bm_beam_size h) (bm_label_scores h) \<and>
     grid (bm_batch_size h) (bm_beam_size h) (bm_blank_scores h) \<and>
     grid (bm_batch_size h) (bm_beam_size h) (bm_full_current_lengths h) \<and>
     grid (bm_batch_size h) (bm_beam_size h) (bm_last_timestep_repetitions h) \<and>
     grid3 (bm_batch_size h) (bm_beam_size h) (bm_max_length h) (bm_transcripts h) \<and>
     grid3 (bm_batch_size h) (bm_beam_size h) (bm_max_length h) (bm_timesteps h) \<and>
     grid3 (bm_batch_size h) (bm_beam_size h) (bm_max_length h) (bm_timesteps_end h) \<and>
     grid3 (bm_batch_size h) (bm_beam_size h) (bm_max_length h) (bm_total_scores h) \<and>
     grid3 (bm_batch_size h) (bm_beam_size h) (bm_max_length h) (bm_token_scores h) \<and>
     grid3 (bm_batch_size h) (bm_beam_size h) (bm_max_length h) (bm_full_timesteps h) \<and>
     grid3 (bm_batch_size h) (bm_beam_size h) (bm_max_length h) (bm_full_transcripts h)"

text \<open>A beam index for \<open>update_beam\<close>: one source beam \<open>0 \<le> j < beam_size\<close> for every new
  slot; a source beam may be named several times or not at all.\<close>

definition valid_beam_idx :: "nat \<Rightarrow> nat \<Rightarrow> int list list \<Rightarrow> bool" where
  "valid_beam_idx B K beam_idx \<longleftrightarrow>
     grid B K beam_idx \<and> (\<forall>row \<in> set beam_idx. \<forall>j \<in> set row. 0 \<le> j \<and> j < int K)"
subsection \<open>Example beam buffers\<close>

text \<open>The buffer that \<open>BeamBatchedHyps(batch_size=1, beam_size=3, max_timesteps, init_length=2)\<close>
  constructs, with \<open>max_timesteps = [10]\<close>.\<close>

definition beam_1x3 :: "(unit, unit) BeamBatchedHyps" where
  "beam_1x3 = \<lparr> bm_max_length = 2, bm_beam_size = 3, bm_batch_size = 1,
        bm_blank_tensor = 1024, bm_current_lengths = [[0, 0, 0]],
        bm_transcripts = [[[0, 0], [0, 0], [0, 0]]],
        bm_timesteps = [[[0, 0], [0, 0], [0, 0]]],
        bm_timesteps_end = [[[0, 0], [0, 0], [0, 0]]],
        bm_scores = [[0, 0, 0]], bm_last_timestep = [[0, 0, 0]],
        bm_last_timestep_lasts = [[0, 0, 0]], bm_label_scores = [[0, 0, 0]],
        bm_blank_scores = [[0, 0, 0]],
        bm_total_scores = [[[0, 0], [0, 0], [0, 0]]],
        bm_token_scores = [[[0, 0], [0, 0], [0, 0]]],
        bm_full_current_lengths = [[0, 0, 0]],
        bm_full_timesteps = [[[0, 0], [0, 0], [0, 0]]],
        bm_full_transcripts = [[[1024, 1024], [1024, 1024], [1024, 1024]]],
        bm_last_timestep_repetitions = [[0, 0, 0]], bm_max_timesteps = [10],
        bm_best_hyps = [[]] \<rparr>"

text \<open>Completed hypotheses with the scores \<open>-2\<close>, \<open>-1\<close>, \<open>-1\<close>, told apart by their label
  sequences.\<close>

definition completed_hyp :: "real \<Rightarrow> int list \<Rightarrow> (unit, unit) Hypothesis" where
  "completed_hyp sc ys =
     \<lparr> score = sc, y_sequence = ys, label_score = None, blank_score = None,
       token_scores = None, timestep = [], alignments = None, frame_confidence = None,
       length_field = 0 \<rparr>"

definition beam_completed :: "(unit, unit) BeamBatchedHyps" where
  "beam_completed = beam_1x3 \<lparr> bm_best_hyps :=
      [[completed_hyp (- 2) [5], completed_hyp (- 1) [6], completed_hyp (- 1) [7]]] \<rparr>"

text \<open>The buffer \<open>beam_1x3\<close> after one \<open>append_labels\<close> with the labels \<open>5, 6, 7\<close>, preceded
  by 1, 0 and 1 blank frames; the capacity has doubled.\<close>

definition beam_one :: "(unit, unit) BeamBatchedHyps" where
  "beam_one = \<lparr> bm_max_length = 4, bm_beam_size = 3, bm_batch_size = 1,
        bm_blank_tensor = 1024, bm_current_lengths = [[1, 1, 1]],
        bm_transcripts = [[[5, 0, 0, 0], [6, 0, 0, 0], [7, 0, 0, 0]]],
        bm_timesteps = [[[0, 0, 0, 0], [0, 0, 0, 0], [0, 0, 0, 0]]],
        bm_timesteps_end = [[[1, 0, 0, 0], [0, 0, 0, 0], [1, 0, 0, 0]]],
        bm_scores = [[- (3 / 10), - 1, - (3 / 2)]],
        bm_last_timestep = [[1, 0, 1]],
        bm_last_timestep_lasts = [[0, 0, 0]],
        bm_label_scores = [[- (1 / 2), - 1, - 2]],
        bm_blank_scores = [[- (1 / 10), 0, - 1]],
        bm_total_scores = [[[- (3 / 10), 0, 0, 0], [- 1, 0, 0, 0], [- (3 / 2), 0, 0, 0]]],
        bm_token_scores = [[[- (1 / 10), - (1 / 2), 0, 0], [- 1, 0, 0, 0], [- 1, - 2, 0, 0]]],
        bm_full_current_lengths = [[2, 1, 2]],
        bm_full_timesteps = [[[0, 1, 0, 0], [0, 0, 0, 0], [0, 1, 0, 0]]],
        bm_full_transcripts =
          [[[1024, 5, 1024, 1024], [6, 1024, 1024, 1024], [1024, 7, 1024, 1024]]],
        bm_last_timestep_repetitions = [[1, 1, 1]], bm_max_timesteps = [10],
        bm_best_hyps = [[]] \<rparr>"
section \<open>Properties\<close>

subsection \<open>Tensor primitives\<close>

lemma ebind_Inl [simp]: "ebind (Inl e) f = Inl e"
  by (simp add: ebind_def)

lemma ebind_Inr [simp]: "ebind (Inr x) f = f x"
  by (simp add: ebind_def)

lemma fold_put_length [simp]:
  "length (fold (\<lambda>(i, v) acc. acc[i := v]) ps xs) = length xs"
  by (induction ps arbitrary: xs) (auto split: prod.splits)

lemma fold_put_nth:
  "distinct (map fst ps) \<Longrightarrow> b < length xs \<Longrightarrow>
   fold (\<lambda>(i, v) acc. acc[i := v]) ps xs ! b =
     (case map_of ps b of None \<Rightarrow> xs ! b | Some v \<Rightarrow> v)"
proof (induction ps arbitrary: xs)
  case Nil
  then show ?case by simp
next
  case (Cons p ps)
  obtain i v where p: "p = (i, v)" by (cases p)
  have notin: "map_of ps i = None"
    using Cons.prems(1) p by (simp add: map_of_eq_None_iff)
  show ?case
    using Cons.IH [of "xs[i := v]"] Cons.prems p notin
    by (auto simp: nth_list_update split: option.splits)
qed

lemma index_put_distinct:
  assumes "distinct idx" "length vals = length idx" "\<forall>i \<in> set idx. i < length xs"
  shows "index_put xs idx vals =
     Inr (map (\<lambda>b. case map_of (zip idx vals) b of None \<Rightarrow> xs ! b | Some v \<Rightarrow> v) [0..<length xs])"
proof -
  have d: "distinct (map fst (zip idx vals))" using assms by simp
  have "fold (\<lambda>(i, v) acc. acc[i := v]) (zip idx vals) xs =
      map (\<lambda>b. case map_of (zip idx vals) b of None \<Rightarrow> xs ! b | Some v \<Rightarrow> v) [0..<length xs]"
    (is "?l = ?r")
  proof (rule nth_equalityI)
    show "length ?l = length ?r" by simp
  next
    fix i assume "i < length ?l"
    then have "i < length xs" by simp
    then show "?l ! i = ?r ! i" by (simp add: fold_put_nth [OF d] split: option.splits)
  qed
  then show ?thesis using assms by (simp add: index_put_def)
qed

lemma fold_put2_length [simp]:
  "length (fold (\<lambda>(r, c, v) acc. acc[r := (acc ! r)[c := v]]) ps m) = length m"
  by (induction ps arbitrary: m) (auto split: prod.splits)

lemma fold_put2_nth:
  "distinct (map fst ps) \<Longrightarrow> b < length m \<Longrightarrow>
   fold (\<lambda>(r, c, v) acc. acc[r := (acc ! r)[c := v]]) ps m ! b =
     (case map_of ps b of None \<Rightarrow> m ! b | Some (c, v) \<Rightarrow> (m ! b)[c := v])"
proof (induction ps arbitrary: m)
  case Nil
  then show ?case by simp
next
  case (Cons p ps)
  obtain r c v where p: "p = (r, c, v)" by (cases p)
  have notin: "map_of ps r = None"
    using Cons.prems(1) p by (simp add: map_of_eq_None_iff)
  show ?case
    using Cons.IH [of "m[r := (m ! r)[c := v]]"] Cons.prems p notin
    by (auto simp: nth_list_update split: option.splits)
qed

lemma index_put2_distinct:
  assumes "distinct rows" "length cols = length rows" "length vals = length rows"
    "\<forall>(r, c) \<in> set (zip rows cols). r < length m \<and> c < length (m ! r)"
  shows "index_put2 m rows cols vals =
     Inr (map (\<lambda>b. case map_of (zip rows (zip cols vals)) b of None \<Rightarrow> m ! b
                    | Some (c, v) \<Rightarrow> (m ! b)[c := v]) [0..<length m])"
proof -
  have d: "distinct (map fst (zip rows (zip cols vals)))" using assms by simp
  have "fold (\<lambda>(r, c, v) acc. acc[r := (acc ! r)[c := v]]) (zip rows (zip cols vals)) m =
      map (\<lambda>b. case map_of (zip rows (zip cols vals)) b of None \<Rightarrow> m ! b
                    | Some (c, v) \<Rightarrow> (m ! b)[c := v]) [0..<length m]"
    (is "?l = ?r")
  proof (rule nth_equalityI)
    show "length ?l = length ?r" by simp
  next
    fix i assume "i < length ?l"
    then have "i < length m" by simp
    then show "?l ! i = ?r ! i" by (simp add: fold_put2_nth [OF d] split: option.splits prod.splits)
  qed
  then show ?thesis using assms by (simp add: index_put2_def)
qed


lemma gather_ok: "\<forall>i \<in> set idx. i < length xs \<Longrightarrow> gather xs idx = Inr (map ((!) xs) idx)"
  by (simp add: gather_def)

lemma zip_with_ok: "length xs = length ys \<Longrightarrow> zip_with f xs ys = Inr (map2 f xs ys)"
  by (simp add: zip_with_def)

lemma tensor_max_ok:
  assumes "xs \<noteq> []"
  shows "tensor_max xs = Inr (Max (set xs))"
proof -
  obtain x ys where "xs = x # ys" using assms by (cases xs) auto
  then show ?thesis using Max.set_eq_fold [of x ys] by (simp add: tensor_max_def)
qed

lemma map_of_zip_notin:
  "length ys = length xs \<Longrightarrow> b \<notin> set xs \<Longrightarrow> map_of (zip xs ys) b = None"
  by (simp add: map_of_zip_is_None)

lemma map_of_zip_at:
  "distinct xs \<Longrightarrow> length ys = length xs \<Longrightarrow> j < length xs \<Longrightarrow>
   map_of (zip xs ys) (xs ! j) = Some (ys ! j)"
  by (simp add: map_of_zip_nth)

lemma add_results_no_checks_step:
  assumes wf: "hyps_wf g"
    and room: "\<forall>n \<in> set (current_lengths g). n < max_length g"
    and args: "valid_index_args (batch_size g) a l t s"
  shows "\<exists>h'. add_results_no_checks g a l t s = Inr h' \<and> hyps_wf h' \<and>
           batch_size h' = batch_size g \<and> max_length h' = max_length g \<and>
           (\<forall>b < batch_size g. item_view h' b = append_item (item_view g b) (index_update a l t s b))"
proof -
  let ?B = "batch_size g"
  let ?L = "max_length g"
  have len: "length (current_lengths g) = ?B" "length (transcript g) = ?B"
    "length (timesteps g) = ?B" "length (scores g) = ?B" "length (last_timestep g) = ?B"
    "length (last_timestep_lasts g) = ?B"
    using wf by (simp_all add: hyps_wf_def)
  have rows: "\<And>b. b < ?B \<Longrightarrow> length (transcript g ! b) = ?L"
    "\<And>b. b < ?B \<Longrightarrow> length (timesteps g ! b) = ?L"
    using wf by (simp_all add: hyps_wf_def)
  have cur: "\<And>b. b < ?B \<Longrightarrow> current_lengths g ! b < ?L"
    using room len by simp
  have a: "distinct a" "\<forall>i \<in> set a. i < ?B" "length l = length a" "length t = length a"
    "length s = length a"
    using args by (simp_all add: valid_index_args_def)
  have inr: "\<forall>(r, c) \<in> set (zip a (map ((!) (current_lengths g)) a)).
      r < length (transcript g) \<and> c < length (transcript g ! r)"
    "\<forall>(r, c) \<in> set (zip a (map ((!) (current_lengths g)) a)).
      r < length (timesteps g) \<and> c < length (timesteps g ! r)"
    using a(2) len rows cur by (auto simp: set_zip)
  define h' where "h' = g \<lparr> scores := map (\<lambda>b. case map_of (zip a (map2 (+) (map ((!) (scores g)) a) s)) b of
                                   None \<Rightarrow> scores g ! b | Some v \<Rightarrow> v) [0..<?B],
      transcript := map (\<lambda>b. case map_of (zip a (zip (map ((!) (current_lengths g)) a) l)) b of
                                   None \<Rightarrow> transcript g ! b
                                 | Some (c, v) \<Rightarrow> (transcript g ! b)[c := v]) [0..<?B],
      timesteps := map (\<lambda>b. case map_of (zip a (zip (map ((!) (current_lengths g)) a) t)) b of
                                   None \<Rightarrow> timesteps g ! b
                                 | Some (c, v) \<Rightarrow> (timesteps g ! b)[c := v]) [0..<?B],
      last_timestep_lasts := map (\<lambda>b. case map_of (zip a
                (map2 (\<lambda>c l. if c then l + 1 else 1) (map2 (=) (map ((!) (last_timestep g)) a) t)
                   (map ((!) (last_timestep_lasts g)) a))) b of
                   None \<Rightarrow> last_timestep_lasts g ! b | Some v \<Rightarrow> v) [0..<?B],
      last_timestep := map (\<lambda>b. case map_of (zip a t) b of
                   None \<Rightarrow> last_timestep g ! b | Some v \<Rightarrow> v) [0..<?B],
      current_lengths := map (\<lambda>b. case map_of (zip a (map Suc (map ((!) (current_lengths g)) a))) b of
                   None \<Rightarrow> current_lengths g ! b | Some v \<Rightarrow> v) [0..<?B] \<rparr>"
  have run: "add_results_no_checks g a l t s = Inr h'"
    unfolding add_results_no_checks_def h'_def
    using a len inr
    by (simp add: gather_ok zip_with_ok index_put_distinct index_put2_distinct)
  have wf': "hyps_wf h'"
  proof -
    have t1: "\<forall>row \<in> set (transcript h'). length row = ?L"
      using rows by (auto simp: h'_def split: option.splits)
    have t2: "\<forall>row \<in> set (timesteps h'). length row = ?L"
      using rows by (auto simp: h'_def split: option.splits)
    have t3: "\<forall>n \<in> set (current_lengths h'). n \<le> ?L"
    proof
      fix n assume "n \<in> set (current_lengths h')"
      then obtain b where b: "b < ?B"
        and n: "n = (case map_of (zip a (map Suc (map ((!) (current_lengths g)) a))) b of
                   None \<Rightarrow> current_lengths g ! b | Some v \<Rightarrow> v)"
        by (auto simp: h'_def)
      show "n \<le> ?L"
      proof (cases "b \<in> set a")
        case False
        then show ?thesis
          using n cur [OF b] by (simp add: map_of_zip_is_None [THEN iffD2])
      next
        case True
        then obtain j where j: "j < length a" "a ! j = b"
          by (auto simp: in_set_conv_nth)
        have "map_of (zip a (map Suc (map ((!) (current_lengths g)) a))) b
              = Some (Suc (current_lengths g ! b))"
          using map_of_zip_nth [of a "map Suc (map ((!) (current_lengths g)) a)" j] a(1) j
          by simp
        then show ?thesis using n cur [OF b] by simp
      qed
    qed
    have sel: "batch_size h' = ?B" "max_length h' = ?L"
      "length (current_lengths h') = ?B" "length (transcript h') = ?B"
      "length (timesteps h') = ?B" "length (scores h') = ?B"
      "length (last_timestep h') = ?B" "length (last_timestep_lasts h') = ?B"
      "batch_indices h' = batch_indices g" "ones_batch h' = ones_batch g"
      by (simp_all add: h'_def)
    show ?thesis
      unfolding hyps_wf_def using wf [unfolded hyps_wf_def] sel t1 t2 t3 by simp
  qed
  have view: "item_view h' b = append_item (item_view g b) (index_update a l t s b)"
    if b: "b < ?B" for b
  proof (cases "b \<in> set a")
    case False
    have "item_view h' b = item_view g b"
      using a b False by (simp add: item_view_def h'_def map_of_zip_notin)
    moreover have "index_update a l t s b = None"
      using a False by (simp add: index_update_def map_of_zip_notin)
    ultimately show ?thesis by simp
  next
    case True
    then obtain j where j: "j < length a" and bj: "b = a ! j"
      by (auto simp: in_set_conv_nth)
    have bb: "a ! j < ?B" using b bj by simp
    have upd: "index_update a l t s (a ! j) = Some (l ! j, t ! j, s ! j)"
      using a j by (simp add: index_update_def map_of_zip_at)
    have v: "item_view h' (a ! j) =
        (scores g ! (a ! j) + s ! j, Suc (current_lengths g ! (a ! j)), t ! j,
         (if last_timestep g ! (a ! j) = t ! j then last_timestep_lasts g ! (a ! j) + 1 else 1),
         take (current_lengths g ! (a ! j)) (transcript g ! (a ! j)) @ [l ! j],
         take (current_lengths g ! (a ! j)) (timesteps g ! (a ! j)) @ [t ! j])"
      using a j bb cur [OF bb] rows [OF bb]
      by (simp add: item_view_def h'_def map_of_zip_at take_Suc_conv_app_nth)
    show ?thesis
      unfolding bj upd v by (simp add: item_view_def)
  qed
  have "batch_size h' = ?B" "max_length h' = ?L"
    by (simp_all add: h'_def)
  then show ?thesis
    using run wf' view by blast
qed


lemma allocate_more_wf: "hyps_wf h \<Longrightarrow> hyps_wf (allocate_more h)"
  by (auto simp: hyps_wf_def allocate_more_def cat_zeros_def)

lemma allocate_more_view:
  "hyps_wf h \<Longrightarrow> b < batch_size h \<Longrightarrow> item_view (allocate_more h) b = item_view h b"
  by (simp add: hyps_wf_def allocate_more_def cat_zeros_def item_view_def)

lemma add_results_step:
  assumes wf: "hyps_wf h" and args: "valid_index_args (batch_size h) a l t s"
  shows "\<exists>h'. add_results h a l t s = Inr h' \<and> hyps_wf h' \<and> batch_size h' = batch_size h \<and>
           max_length h' = (if a = [] \<or> Max (set (current_lengths h)) < max_length h
                            then max_length h else max_length h * 2) \<and>
           (\<forall>b < batch_size h. item_view h' b = append_item (item_view h b) (index_update a l t s b))"
proof (cases "a = []")
  case True
  then show ?thesis using wf by (simp add: add_results_def index_update_def)
next
  case False
  let ?m = "Max (set (current_lengths h))"
  define g where "g = (if ?m \<ge> max_length h then allocate_more h else h)"
  have ne: "current_lengths h \<noteq> []" using wf by (auto simp: hyps_wf_def)
  have le: "\<forall>n \<in> set (current_lengths h). n \<le> max_length h" "0 < max_length h"
    using wf by (simp_all add: hyps_wf_def)
  have run: "add_results h a l t s = add_results_no_checks g a l t s"
    using False ne by (simp add: add_results_def tensor_max_ok g_def)
  have wfg: "hyps_wf g" using wf by (simp add: g_def allocate_more_wf)
  have bg: "batch_size g = batch_size h" by (simp add: g_def allocate_more_def)
  have cg: "current_lengths g = current_lengths h" by (simp add: g_def allocate_more_def)
  have mg: "max_length g = (if ?m < max_length h then max_length h else max_length h * 2)"
    by (simp add: g_def allocate_more_def)
  have room: "\<forall>n \<in> set (current_lengths g). n < max_length g"
  proof
    fix n assume n: "n \<in> set (current_lengths g)"
    then have "n \<le> ?m" "n \<le> max_length h" using le cg by simp_all
    then show "n < max_length g" using le(2) by (simp add: mg)
  qed
  have vg: "item_view g b = item_view h b" if "b < batch_size h" for b
    using that wf by (simp add: g_def allocate_more_view)
  obtain h' where h': "add_results_no_checks g a l t s = Inr h'" "hyps_wf h'"
    "batch_size h' = batch_size g" "max_length h' = max_length g"
    "\<forall>b < batch_size g. item_view h' b = append_item (item_view g b) (index_update a l t s b)"
    using add_results_no_checks_step [OF wfg room] args bg by metis
  show ?thesis
    using h' run bg mg vg False by auto
qed

lemma map_of_zip_upt:
  "b < n \<Longrightarrow> length ys = n \<Longrightarrow> map_of (zip [0..<n] ys) b = Some (ys ! b)"
  using map_of_zip_at [of "[0..<n]" ys b] by simp

lemma add_results_masked_no_checks_step:
  assumes wf: "hyps_wf g"
    and room: "\<forall>n \<in> set (current_lengths g). n < max_length g"
    and args: "valid_mask_args (batch_size g) m l t s"
  shows "\<exists>h'. add_results_masked_no_checks g m l t s = Inr h' \<and> hyps_wf h' \<and>
           batch_size h' = batch_size g \<and> max_length h' = max_length g \<and>
           (\<forall>b < batch_size g. item_view h' b = append_item (item_view g b) (mask_update m l t s b)) \<and>
           (\<forall>b < batch_size g. transcript h' ! b = (transcript g ! b)[current_lengths g ! b := l ! b]) \<and>
           (\<forall>b < batch_size g. timesteps h' ! b = (timesteps g ! b)[current_lengths g ! b := t ! b])"
proof -
  let ?B = "batch_size g"
  let ?L = "max_length g"
  have len: "length (current_lengths g) = ?B" "length (transcript g) = ?B"
    "length (timesteps g) = ?B" "length (scores g) = ?B" "length (last_timestep g) = ?B"
    "length (last_timestep_lasts g) = ?B" "batch_indices g = [0..<?B]"
    "ones_batch g = replicate ?B 1"
    using wf by (simp_all add: hyps_wf_def)
  have rows: "\<And>b. b < ?B \<Longrightarrow> length (transcript g ! b) = ?L"
    "\<And>b. b < ?B \<Longrightarrow> length (timesteps g ! b) = ?L"
    using wf by (simp_all add: hyps_wf_def)
  have cur: "\<And>b. b < ?B \<Longrightarrow> current_lengths g ! b < ?L"
    using room len by simp
  have a: "length m = ?B" "length l = ?B" "length t = ?B" "length s = ?B"
    using args by (simp_all add: valid_mask_args_def)
  have inr: "\<forall>(r, c) \<in> set (zip [0..<?B] (current_lengths g)).
      r < length (transcript g) \<and> c < length (transcript g ! r)"
    "\<forall>(r, c) \<in> set (zip [0..<?B] (current_lengths g)).
      r < length (timesteps g) \<and> c < length (timesteps g ! r)"
    using len rows cur by (auto simp: set_zip)
  define h' where "h' = g \<lparr>
      scores := map2 (\<lambda>m (a, b). if m then a else b) m (zip (map2 (+) (scores g) s) (scores g)),
      transcript := map (\<lambda>b. case map_of (zip [0..<?B] (zip (current_lengths g) l)) b of
                                   None \<Rightarrow> transcript g ! b
                                 | Some (c, v) \<Rightarrow> (transcript g ! b)[c := v]) [0..<?B],
      timesteps := map (\<lambda>b. case map_of (zip [0..<?B] (zip (current_lengths g) t)) b of
                                   None \<Rightarrow> timesteps g ! b
                                 | Some (c, v) \<Rightarrow> (timesteps g ! b)[c := v]) [0..<?B],
      last_timestep_lasts := map2 (\<lambda>c (one, l). if c then one else l)
          (map2 (\<lambda>m s. m \<and> \<not> s) m (map2 (=) (last_timestep g) t))
          (zip (replicate ?B 1)
               (map2 (\<lambda>c l. if c then l + 1 else l)
                  (map2 (\<and>) m (map2 (=) (last_timestep g) t)) (last_timestep_lasts g))),
      last_timestep := map2 (\<lambda>m (t, l). if m then t else l) m (zip t (last_timestep g)),
      current_lengths := map2 (\<lambda>l m. l + mask_val m) (current_lengths g) m \<rparr>"
  have run: "add_results_masked_no_checks g m l t s = Inr h'"
    unfolding add_results_masked_no_checks_def h'_def
    using a len inr
    by (simp add: zip_with_ok index_put2_distinct)
  have sel: "batch_size h' = ?B" "max_length h' = ?L"
    "length (current_lengths h') = ?B" "length (transcript h') = ?B"
    "length (timesteps h') = ?B" "length (scores h') = ?B"
    "length (last_timestep h') = ?B" "length (last_timestep_lasts h') = ?B"
    "batch_indices h' = batch_indices g" "ones_batch h' = ones_batch g"
    using a len by (simp_all add: h'_def)
  have tr: "transcript h' ! b = (transcript g ! b)[current_lengths g ! b := l ! b]"
    and ts: "timesteps h' ! b = (timesteps g ! b)[current_lengths g ! b := t ! b]"
    and cl: "current_lengths h' ! b = current_lengths g ! b + mask_val (m ! b)"
    and sc: "scores h' ! b = (if m ! b then scores g ! b + s ! b else scores g ! b)"
    and lt: "last_timestep h' ! b = (if m ! b then t ! b else last_timestep g ! b)"
    and ll: "last_timestep_lasts h' ! b =
       (if m ! b then (if last_timestep g ! b = t ! b then last_timestep_lasts g ! b + 1 else 1)
        else last_timestep_lasts g ! b)"
    if b: "b < ?B" for b
    using a len b by (simp_all add: h'_def map_of_zip_upt)
  have wf': "hyps_wf h'"
  proof -
    have t1: "\<forall>row \<in> set (transcript h'). length row = ?L"
      using rows sel tr by (auto simp: in_set_conv_nth)
    have t2: "\<forall>row \<in> set (timesteps h'). length row = ?L"
      using rows sel ts by (auto simp: in_set_conv_nth)
    have t3: "\<forall>n \<in> set (current_lengths h'). n \<le> ?L"
    proof
      fix n assume "n \<in> set (current_lengths h')"
      then obtain b where b: "b < ?B" "n = current_lengths h' ! b"
        using sel by (auto simp: in_set_conv_nth)
      then show "n \<le> ?L" using cl [OF b(1)] cur [OF b(1)] by (simp add: mask_val_def)
    qed
    show ?thesis
      unfolding hyps_wf_def using wf [unfolded hyps_wf_def] sel t1 t2 t3 by simp
  qed
  have view: "item_view h' b = append_item (item_view g b) (mask_update m l t s b)"
    if b: "b < ?B" for b
    using cur [OF b] rows [OF b]
    by (simp add: item_view_def tr [OF b] ts [OF b] cl [OF b] sc [OF b] lt [OF b] ll [OF b]
        mask_update_def mask_val_def take_Suc_conv_app_nth)
  show ?thesis
    using run wf' view sel tr ts by blast
qed


lemma add_results_masked_step:
  assumes wf: "hyps_wf h" and args: "valid_mask_args (batch_size h) m l t s"
  shows "\<exists>h'. add_results_masked h m l t s = Inr h' \<and> hyps_wf h' \<and> batch_size h' = batch_size h \<and>
           (\<forall>b < batch_size h. item_view h' b = append_item (item_view h b) (mask_update m l t s b))"
proof -
  let ?p = "map2 (\<lambda>l m. l + mask_val m) (current_lengths h) m"
  let ?m = "Max (set ?p)"
  define g where "g = (if ?m \<ge> max_length h then allocate_more h else h)"
  have len: "length (current_lengths h) = batch_size h" "0 < batch_size h"
    "length m = batch_size h"
    using wf args by (simp_all add: hyps_wf_def valid_mask_args_def)
  have le: "\<forall>n \<in> set (current_lengths h). n \<le> max_length h" "0 < max_length h"
    using wf by (simp_all add: hyps_wf_def)
  have ne: "?p \<noteq> []" using len by auto
  have run: "add_results_masked h m l t s = add_results_masked_no_checks g m l t s"
    using len ne by (simp add: add_results_masked_def zip_with_ok tensor_max_ok g_def)
  have wfg: "hyps_wf g" using wf by (simp add: g_def allocate_more_wf)
  have bg: "batch_size g = batch_size h" by (simp add: g_def allocate_more_def)
  have cg: "current_lengths g = current_lengths h" by (simp add: g_def allocate_more_def)
  have mg: "max_length g = (if ?m < max_length h then max_length h else max_length h * 2)"
    by (simp add: g_def allocate_more_def)
  have room: "\<forall>n \<in> set (current_lengths g). n < max_length g"
  proof
    fix n assume n: "n \<in> set (current_lengths g)"
    then obtain b where b: "b < batch_size h" "n = current_lengths h ! b"
      using cg len by (auto simp: in_set_conv_nth)
    have "?p ! b \<in> set ?p" using b len by (intro nth_mem) simp
    then have "?p ! b \<le> ?m" by simp
    moreover have "?p ! b = n + mask_val (m ! b)" using b len by simp
    ultimately have "n \<le> ?m" by simp
    moreover have "n \<le> max_length h" using n le cg by simp
    ultimately show "n < max_length g" using le(2) by (simp add: mg)
  qed
  have vg: "item_view g b = item_view h b" if "b < batch_size h" for b
    using that wf by (simp add: g_def allocate_more_view)
  obtain h' where h': "add_results_masked_no_checks g m l t s = Inr h'" "hyps_wf h'"
    "batch_size h' = batch_size g"
    "\<forall>b < batch_size g. item_view h' b = append_item (item_view g b) (mask_update m l t s b)"
    using add_results_masked_no_checks_step [OF wfg room] args bg by metis
  show ?thesis
    using h' run bg vg by auto
qed


lemma add_results_masked_rows:
  assumes wf: "hyps_wf h" and args: "valid_mask_args (batch_size h) m l t s"
  shows "\<exists>h'. add_results_masked h m l t s = Inr h' \<and>
           (\<forall>b < batch_size h.
              transcript h' ! b =
                (transcript h ! b @ replicate (max_length h' - max_length h) 0)
                  [current_lengths h ! b := l ! b] \<and>
              timesteps h' ! b =
                (timesteps h ! b @ replicate (max_length h' - max_length h) 0)
                  [current_lengths h ! b := t ! b] \<and>
              current_lengths h ! b < max_length h' \<and> max_length h \<le> max_length h')"
proof -
  let ?p = "map2 (\<lambda>l m. l + mask_val m) (current_lengths h) m"
  let ?m = "Max (set ?p)"
  define g where "g = (if ?m \<ge> max_length h then allocate_more h else h)"
  have len: "length (current_lengths h) = batch_size h" "0 < batch_size h"
    "length m = batch_size h" "length (transcript h) = batch_size h"
    "length (timesteps h) = batch_size h"
    using wf args by (simp_all add: hyps_wf_def valid_mask_args_def)
  have le: "\<forall>n \<in> set (current_lengths h). n \<le> max_length h" "0 < max_length h"
    using wf by (simp_all add: hyps_wf_def)
  have rows: "\<And>b. b < batch_size h \<Longrightarrow> length (transcript h ! b) = max_length h"
    "\<And>b. b < batch_size h \<Longrightarrow> length (timesteps h ! b) = max_length h"
    using wf by (simp_all add: hyps_wf_def)
  have ne: "?p \<noteq> []" using len by auto
  have run: "add_results_masked h m l t s = add_results_masked_no_checks g m l t s"
    using len ne by (simp add: add_results_masked_def zip_with_ok tensor_max_ok g_def)
  have wfg: "hyps_wf g" using wf by (simp add: g_def allocate_more_wf)
  have bg: "batch_size g = batch_size h" by (simp add: g_def allocate_more_def)
  have cg: "current_lengths g = current_lengths h" by (simp add: g_def allocate_more_def)
  have mg: "max_length g = (if ?m < max_length h then max_length h else max_length h * 2)"
    by (simp add: g_def allocate_more_def)
  have room: "\<forall>n \<in> set (current_lengths g). n < max_length g"
  proof
    fix n assume n: "n \<in> set (current_lengths g)"
    then obtain b where b: "b < batch_size h" "n = current_lengths h ! b"
      using cg len by (auto simp: in_set_conv_nth)
    have "?p ! b \<in> set ?p" using b len by (intro nth_mem) simp
    then have "?p ! b \<le> ?m" by simp
    moreover have "?p ! b = n + mask_val (m ! b)" using b len by simp
    ultimately have "n \<le> ?m" by simp
    moreover have "n \<le> max_length h" using n le cg by simp
    ultimately show "n < max_length g" using le(2) by (simp add: mg)
  qed
  have rg: "transcript g ! b = transcript h ! b @ replicate (max_length g - max_length h) 0"
    "timesteps g ! b = timesteps h ! b @ replicate (max_length g - max_length h) 0"
    if "b < batch_size h" for b
    using that len rows by (simp_all add: g_def allocate_more_def cat_zeros_def)
  obtain h' where h': "add_results_masked_no_checks g m l t s = Inr h'"
    "max_length h' = max_length g"
    "\<forall>b < batch_size g. transcript h' ! b = (transcript g ! b)[current_lengths g ! b := l ! b]"
    "\<forall>b < batch_size g. timesteps h' ! b = (timesteps g ! b)[current_lengths g ! b := t ! b]"
    using add_results_masked_no_checks_step [OF wfg room] args bg by metis
  have "transcript h' ! b =
          (transcript h ! b @ replicate (max_length h' - max_length h) 0)
            [current_lengths h ! b := l ! b] \<and>
        timesteps h' ! b =
          (timesteps h ! b @ replicate (max_length h' - max_length h) 0)
            [current_lengths h ! b := t ! b] \<and>
        current_lengths h ! b < max_length h' \<and> max_length h \<le> max_length h'"
    if b: "b < batch_size h" for b
  proof -
    have "current_lengths h ! b \<in> set (current_lengths g)" using b len cg by simp
    then have "current_lengths h ! b < max_length g" using room by blast
    moreover have "max_length h \<le> max_length g" by (simp add: mg)
    ultimately show ?thesis using h'(2-4) b bg cg rg [OF b] by simp
  qed
  then show ?thesis using run h'(1) by auto
qed

subsection \<open>The example buffers are what the constructor returns\<close>

lemma hyps_2x2_init: "BatchedHyps_init 2 2 = Inr hyps_2x2"
  by (simp add: BatchedHyps_init_def hyps_2x2_def numeral_2_eq_2 upt_rec)

lemma hyps_2x2_wf: "hyps_wf hyps_2x2"
  by (simp add: hyps_wf_def hyps_2x2_def numeral_2_eq_2 upt_rec)


lemma hyps_2x2_used_wf: "hyps_wf hyps_2x2_used"
  by (simp add: hyps_wf_def hyps_2x2_used_def numeral_2_eq_2 upt_rec)

lemma hyps_2x2_used_reached:
  "add_results hyps_2x2 [0, 1] [3, 4] [0, 1] [- 1 / 2, - 1 / 4] = Inr hyps_2x2_used"
  by (simp add: hyps_2x2_def hyps_2x2_used_def add_results_def add_results_no_checks_def
      tensor_max_def gather_def zip_with_def index_put_def index_put2_def)
subsection \<open>Runs of append calls\<close>

lemma run_index_sim:
  assumes "list_all (valid_index_step B) steps" "hyps_wf h1" "hyps_wf h2"
    "batch_size h1 = B" "batch_size h2 = B" "\<forall>b < B. item_view h1 b = item_view h2 b"
  shows "\<exists>r1 r2. run_index h1 steps = Inr r1 \<and> run_index h2 steps = Inr r2 \<and>
           hyps_wf r1 \<and> hyps_wf r2 \<and> batch_size r1 = B \<and> batch_size r2 = B \<and>
           (\<forall>b < B. item_view r1 b = item_view r2 b)"
  using assms
proof (induction steps arbitrary: h1 h2)
  case Nil
  then show ?case by simp
next
  case (Cons st steps)
  obtain a l t s where st: "st = (a, l, t, s)" by (cases st)
  have v: "valid_index_args B a l t s" and rest: "list_all (valid_index_step B) steps"
    using Cons.prems(1) st by simp_all
  obtain k1 where k1: "add_results h1 a l t s = Inr k1" "hyps_wf k1" "batch_size k1 = B"
    "\<forall>b < B. item_view k1 b = append_item (item_view h1 b) (index_update a l t s b)"
    using add_results_step [of h1 a l t s] Cons.prems v by auto
  obtain k2 where k2: "add_results h2 a l t s = Inr k2" "hyps_wf k2" "batch_size k2 = B"
    "\<forall>b < B. item_view k2 b = append_item (item_view h2 b) (index_update a l t s b)"
    using add_results_step [of h2 a l t s] Cons.prems v by auto
  have "\<forall>b < B. item_view k1 b = item_view k2 b"
    using k1(4) k2(4) Cons.prems(6) by simp
  from Cons.IH [OF rest k1(2) k2(2) k1(3) k2(3) this]
  show ?case using st k1(1) k2(1) by simp
qed

lemma index_mask_sim:
  assumes "list_all2 (same_logical_updates B) ias mas" "hyps_wf h1" "hyps_wf h2"
    "batch_size h1 = B" "batch_size h2 = B" "\<forall>b < B. item_view h1 b = item_view h2 b"
  shows "\<exists>r1 r2. run_index h1 ias = Inr r1 \<and> run_masked h2 mas = Inr r2 \<and>
           batch_size r1 = B \<and> batch_size r2 = B \<and>
           (\<forall>b < B. item_view r1 b = item_view r2 b)"
  using assms
proof (induction ias mas arbitrary: h1 h2 rule: list_all2_induct)
  case Nil
  then show ?case by simp
next
  case (Cons ia ias ma mas)
  obtain a l t s where ia: "ia = (a, l, t, s)" by (cases ia)
  obtain m l' t' s' where ma: "ma = (m, l', t', s')" by (cases ma)
  have v: "valid_index_args B a l t s" "valid_mask_args B m l' t' s'"
    and same: "\<forall>b < B. index_update a l t s b = mask_update m l' t' s' b"
    using Cons.hyps(1) ia ma by simp_all
  obtain k1 where k1: "add_results h1 a l t s = Inr k1" "hyps_wf k1" "batch_size k1 = B"
    "\<forall>b < B. item_view k1 b = append_item (item_view h1 b) (index_update a l t s b)"
    using add_results_step [of h1 a l t s] Cons.prems v by auto
  obtain k2 where k2: "add_results_masked h2 m l' t' s' = Inr k2" "hyps_wf k2" "batch_size k2 = B"
    "\<forall>b < B. item_view k2 b = append_item (item_view h2 b) (mask_update m l' t' s' b)"
    using add_results_masked_step [of h2 m l' t' s'] Cons.prems v by auto
  have "\<forall>b < B. item_view k1 b = item_view k2 b"
    using k1(4) k2(4) Cons.prems(5) same by simp
  from Cons.IH [OF k1(2) k2(2) k1(3) k2(3) this]
  show ?case using ia ma k1(1) k2(1) by simp
qed

lemma logical_contents_eq:
  "batch_size r1 = B \<Longrightarrow> batch_size r2 = B \<Longrightarrow> \<forall>b < B. item_view r1 b = item_view r2 b \<Longrightarrow>
   logical_contents r1 = logical_contents r2"
  by (simp add: logical_contents_def)

subsection \<open>Construction and full-batch runs\<close>

lemma init_facts:
  assumes "BatchedHyps_init B L = Inr g"
  shows "hyps_wf g" "batch_size g = nat B" "max_length g = nat L"
    "current_lengths g = replicate (nat B) 0"
    "\<forall>b < nat B. item_view g b = (0, 0, - 1, 0, [], [])"
proof -
  have pos: "0 < L" "0 < B" and g: "g = \<lparr> max_length = nat L,
                 current_lengths = replicate (nat B) 0,
                 transcript = replicate (nat B) (replicate (nat L) 0),
                 timesteps = replicate (nat B) (replicate (nat L) 0),
                 scores = replicate (nat B) 0,
                 last_timestep = replicate (nat B) (- 1),
                 last_timestep_lasts = replicate (nat B) 0,
                 batch_indices = [0..<nat B],
                 ones_batch = replicate (nat B) 1,
                 batch_size = nat B \<rparr>"
    using assms by (auto simp: BatchedHyps_init_def split: if_splits)
  show "hyps_wf g" using pos by (simp add: g hyps_wf_def)
  show "batch_size g = nat B" "max_length g = nat L" "current_lengths g = replicate (nat B) 0"
    by (simp_all add: g)
  show "\<forall>b < nat B. item_view g b = (0, 0, - 1, 0, [], [])"
    by (simp add: g item_view_def)
qed

lemma index_update_active:
  assumes "valid_index_args B a l t s" "b \<in> set a"
  shows "\<exists>x. index_update a l t s b = Some x"
proof -
  have "map_of (zip a (zip l (zip t s))) b \<noteq> None"
    using assms by (simp add: valid_index_args_def map_of_zip_is_None)
  then show ?thesis by (auto simp: index_update_def)
qed

lemma append_item_length: "fst (snd (append_item it (Some x))) = Suc (fst (snd it))"
  by (cases it; cases x) simp

lemma full_step_length:
  assumes "hyps_wf h" "full_index_step (batch_size h) (a, l, t, s)"
  shows "\<exists>k. add_results h a l t s = Inr k \<and> hyps_wf k \<and> batch_size k = batch_size h \<and>
     max_length k = (if Max (set (current_lengths h)) < max_length h
                     then max_length h else max_length h * 2) \<and>
     (\<forall>b < batch_size h. current_lengths k ! b = Suc (current_lengths h ! b))"
proof -
  have v: "valid_index_args (batch_size h) a l t s" and all: "set [0..<batch_size h] \<subseteq> set a"
    using assms(2) by simp_all
  have "0 < batch_size h" using assms(1) by (simp add: hyps_wf_def)
  then have ne: "a \<noteq> []" using all by auto
  obtain k where k: "add_results h a l t s = Inr k" "hyps_wf k" "batch_size k = batch_size h"
    "max_length k = (if a = [] \<or> Max (set (current_lengths h)) < max_length h
                            then max_length h else max_length h * 2)"
    "\<forall>b < batch_size h. item_view k b = append_item (item_view h b) (index_update a l t s b)"
    using add_results_step [OF assms(1) v] by blast
  have "current_lengths k ! b = Suc (current_lengths h ! b)" if b: "b < batch_size h" for b
  proof -
    have "b \<in> set a" using all b by auto
    then obtain x where "index_update a l t s b = Some x"
      using index_update_active [OF v] by blast
    then have "fst (snd (item_view k b)) = Suc (fst (snd (item_view h b)))"
      using k(5) b by (simp add: append_item_length)
    then show ?thesis by (simp add: item_view_def)
  qed
  then show ?thesis using k ne by auto
qed

lemma run_index_full:
  assumes "list_all (full_index_step B) steps" "hyps_wf h" "batch_size h = B"
    "\<forall>b < B. current_lengths h ! b = n"
  shows "\<exists>r. run_index h steps = Inr r \<and>
     (\<forall>b < B. current_lengths r ! b = n + length steps) \<and>
     (n + length steps \<le> max_length h \<longrightarrow> max_length r = max_length h)"
  using assms
proof (induction steps arbitrary: h n)
  case Nil
  then show ?case by simp
next
  case (Cons st steps)
  obtain a l t s where st: "st = (a, l, t, s)" by (cases st)
  have f: "full_index_step (batch_size h) (a, l, t, s)" and rest: "list_all (full_index_step B) steps"
    using Cons.prems(1,3) st by simp_all
  obtain k where k: "add_results h a l t s = Inr k" "hyps_wf k" "batch_size k = B"
    "max_length k = (if Max (set (current_lengths h)) < max_length h
                     then max_length h else max_length h * 2)"
    "\<forall>b < B. current_lengths k ! b = Suc (current_lengths h ! b)"
    using full_step_length [OF Cons.prems(2) f] Cons.prems(3) by auto
  have len: "length (current_lengths h) = B" "0 < B"
    using Cons.prems(2,3) by (auto simp: hyps_wf_def)
  have "current_lengths h = replicate B n"
    using Cons.prems(4) len by (intro nth_equalityI) simp_all
  then have "set (current_lengths h) = {n}"
    using len(2) by simp
  then have mx: "Max (set (current_lengths h)) = n" by simp
  have cur: "\<forall>b < B. current_lengths k ! b = Suc n"
    using k(5) Cons.prems(4) by simp
  obtain r where r: "run_index k steps = Inr r"
    "\<forall>b < B. current_lengths r ! b = Suc n + length steps"
    "Suc n + length steps \<le> max_length k \<longrightarrow> max_length r = max_length k"
    using Cons.IH [OF rest k(2) k(3) cur] by blast
  have "n + length (st # steps) \<le> max_length h \<longrightarrow> max_length r = max_length h"
    using r(3) k(4) mx by auto
  then show ?case using st k(1) r(1,2) by simp
qed


lemma full_steps_valid: "list_all (full_index_step B) steps \<Longrightarrow> list_all (valid_index_step B) steps"
  by (induction steps) auto

subsection \<open>The materializer\<close>

lemma ebind_eq_Inr: "ebind m f = Inr y \<longleftrightarrow> (\<exists>x. m = Inr x \<and> f x = Inr y)"
  by (cases m) simp_all

lemma map_e_total: "\<forall>x \<in> set xs. f x = Inr (g x) \<Longrightarrow> map_e f xs = Inr (map g xs)"
  by (induction xs) simp_all

lemma map_e_Inr:
  "map_e f xs = Inr ys \<Longrightarrow> length ys = length xs \<and> (\<forall>i < length xs. f (xs ! i) = Inr (ys ! i))"
proof (induction xs arbitrary: ys)
  case Nil
  then show ?case by simp
next
  case (Cons x xs)
  then obtain y ys' where y: "f x = Inr y" "map_e f xs = Inr ys'" "ys = y # ys'"
    by (auto simp: ebind_eq_Inr)
  show ?case using Cons.IH [OF y(2)] y by (auto simp: nth_Cons split: nat.splits)
qed

lemma nth_e_ok: "i < length xs \<Longrightarrow> nth_e xs i = Inr (xs ! i)"
  by (simp add: nth_e_def)

lemma add_alignments_keeps:
  assumes "add_alignments a i hyp = Inr hyp'"
  shows "y_sequence hyp' = y_sequence hyp" "timestep hyp' = timestep hyp"
    "length_field hyp' = length_field hyp" "score hyp' = score hyp"
  using assms by (auto simp: add_alignments_def ebind_eq_Inr Let_def)

lemma greedy_hypotheses:
  assumes wf: "hyps_wf h" and bs: "case bs of None \<Rightarrow> True | Some n \<Rightarrow> n \<le> int (batch_size h)"
  defines "num \<equiv> (case bs of None \<Rightarrow> batch_size h | Some n \<Rightarrow> nat n)"
  defines "base \<equiv> map (\<lambda>i. make_Hypothesis (scores h ! i)
                  (take (current_lengths h ! i) (transcript h ! i))
                  (take (current_lengths h ! i) (timesteps h ! i))) [0..<num]"
  shows "batched_hyps_to_hypotheses h al bs =
     (case al of None \<Rightarrow> Inr base
      | Some a \<Rightarrow> map_e (\<lambda>(i, hyp). add_alignments a i hyp) (zip [0..<num] base))"
    and "num \<le> batch_size h"
proof -
  have len: "length (current_lengths h) = batch_size h" "length (transcript h) = batch_size h"
    "length (timesteps h) = batch_size h" "length (scores h) = batch_size h"
    using wf by (simp_all add: hyps_wf_def)
  show le: "num \<le> batch_size h"
    using bs by (auto simp: num_def split: option.splits)
  have ok: "\<not> \<not> (case bs of None \<Rightarrow> True | Some n \<Rightarrow> n \<le> int (length (scores h)))"
    using bs len by (simp split: option.splits)
  have m: "map_e (\<lambda>i.
                 ebind (nth_e (scores h) i) (\<lambda>sc.
                 ebind (nth_e (current_lengths h) i) (\<lambda>n.
                 ebind (nth_e (transcript h) i) (\<lambda>tr_row.
                 ebind (nth_e (timesteps h) i) (\<lambda>ts_row.
                   Inr (make_Hypothesis sc (take n tr_row) (take n ts_row)))))))
               [0..<num] = Inr base"
    unfolding base_def using le len by (intro map_e_total) (simp add: nth_e_ok)
  have n: "(case bs of None \<Rightarrow> length (scores h) | Some n \<Rightarrow> nat n) = num"
    using len by (cases bs) (simp_all add: num_def)
  show "batched_hyps_to_hypotheses h al bs =
     (case al of None \<Rightarrow> Inr base
      | Some a \<Rightarrow> map_e (\<lambda>(i, hyp). add_alignments a i hyp) (zip [0..<num] base))"
    unfolding batched_hyps_to_hypotheses_def using ok
    by (cases al) (simp_all add: n m Let_def base_def)
qed

subsection \<open>Grouping the alignment trace\<close>

lemma sum_group_counts: "sum_list (group_counts x n ys) = n + length ys"
  by (induction ys arbitrary: x n) auto

lemma sum_unique_consecutive_counts: "sum_list (unique_consecutive_counts xs) = length xs"
  by (cases xs) (simp_all add: unique_consecutive_counts_def sum_group_counts)

lemma length_group_counts_sorted:
  "sorted (x # ys) \<Longrightarrow> length (group_counts x n ys) = card (set (x # ys))"
proof (induction ys arbitrary: x n)
  case Nil
  then show ?case by simp
next
  case (Cons y ys)
  show ?case
  proof (cases "x = y")
    case True
    then show ?thesis using Cons.IH [of y "Suc n"] Cons.prems by simp
  next
    case False
    have "x \<notin> set (y # ys)" using Cons.prems False by auto
    then have "card (set (x # y # ys)) = Suc (card (set (y # ys)))" by simp
    then show ?thesis using Cons.IH [of y 1] Cons.prems False by simp
  qed
qed

lemma length_unique_consecutive_counts_sorted:
  "sorted xs \<Longrightarrow> length (unique_consecutive_counts xs) = card (set xs)"
  by (cases xs) (simp_all add: unique_consecutive_counts_def length_group_counts_sorted del: sorted_wrt.simps)

lemma alignment_groups_ok:
  "start + sum_list counts \<le> length row \<Longrightarrow>
   \<exists>gs. alignment_groups row start counts = Inr gs \<and> map length gs = counts \<and>
        concat gs = take (sum_list counts) (drop start row)"
proof (induction counts arbitrary: start)
  case Nil
  then show ?case by simp
next
  case (Cons c counts)
  have p: "(start + c) + sum_list counts \<le> length row" using Cons.prems by simp
  from Cons.IH [OF p] obtain gs where gs: "alignment_groups row (start + c) counts = Inr gs"
    "map length gs = counts" "concat gs = take (sum_list counts) (drop (start + c) row)"
    by blast
  have "map (\<lambda>j. row ! (start + j)) [0..<c] = take c (drop start row)"
    using Cons.prems by (intro nth_equalityI) simp_all
  then show ?case using gs Cons.prems
    by (simp add: take_add add.commute)
qed


lemma map_e_exists: "\<forall>x \<in> set xs. \<exists>y. f x = Inr y \<Longrightarrow> \<exists>ys. map_e f xs = Inr ys"
proof (induction xs)
  case Nil
  then show ?case by simp
next
  case (Cons x xs)
  then obtain y ys where "f x = Inr y" "map_e f xs = Inr ys" by auto
  then show ?case by simp
qed

lemma add_alignments_ok:
  assumes wf: "al_wf a B" and i: "i < B" and wa: "al_with_alignments a"
  shows "\<exists>hyp' groups. add_alignments a i hyp = Inr hyp' \<and> alignments hyp' = Some groups \<and>
     hyp' = hyp \<lparr> alignments := alignments hyp', frame_confidence := frame_confidence hyp' \<rparr> \<and>
     map length groups =
       unique_consecutive_counts (take (al_current_lengths a ! i) (al_timesteps a ! i)) \<and>
     map snd (concat groups) = take (al_current_lengths a ! i) (al_labels a ! i)"
proof -
  let ?n = "al_current_lengths a ! i"
  let ?L = "al_max_length a"
  let ?trace = "take ?n (al_timesteps a ! i)"
  let ?counts = "unique_consecutive_counts ?trace"
  have len: "length (al_current_lengths a) = B" "length (al_timesteps a) = B"
    "length (al_logits a) = B" "length (al_labels a) = B"
    using wf wa by (simp_all add: al_wf_def)
  have rows: "?n \<le> ?L" "length (al_timesteps a ! i) = ?L" "length (al_logits a ! i) = ?L"
    "length (al_labels a ! i) = ?L"
    using wf wa i len by (simp_all add: al_wf_def)
  have tl: "length ?trace = ?n" using rows by simp
  have sm: "sum_list ?counts = ?n" using tl by (simp only: sum_unique_consecutive_counts)
  obtain gs where gs: "alignment_groups (zip (al_logits a ! i) (al_labels a ! i)) 0 ?counts = Inr gs"
    "map length gs = ?counts"
    "concat gs = take (sum_list ?counts) (drop 0 (zip (al_logits a ! i) (al_labels a ! i)))"
    using alignment_groups_ok [of 0 ?counts "zip (al_logits a ! i) (al_labels a ! i)"] rows sm
    by auto
  have lab: "map snd (concat gs) = take ?n (al_labels a ! i)"
    using gs(3) rows sm by (simp add: take_map [symmetric] del: take_zip)
  show ?thesis
  proof (cases "al_with_frame_confidence a")
    case True
    then have fc: "length (al_frame_confidence a) = B" "length (al_frame_confidence a ! i) = ?L"
      using wf i by (simp_all add: al_wf_def)
    obtain g where g: "alignment_groups (al_frame_confidence a ! i) 0 ?counts = Inr g"
      using alignment_groups_ok [of 0 ?counts "al_frame_confidence a ! i"] rows sm fc
      by auto
    have "add_alignments a i hyp = Inr (hyp \<lparr> alignments := Some gs, frame_confidence := Some g \<rparr>)"
      unfolding add_alignments_def
      using i len wa gs(1) g True fc by (simp add: nth_e_def Let_def)
    then show ?thesis using gs(2) lab by simp
  next
    case False
    have "add_alignments a i hyp =
        Inr (hyp \<lparr> alignments := Some gs, frame_confidence := frame_confidence hyp \<rparr>)"
      unfolding add_alignments_def
      using i len wa gs(1) False by (simp add: nth_e_def Let_def)
    then show ?thesis using gs(2) lab by simp
  qed
qed

lemma al_1x1_init: "BatchedAlignments_init 1 0 1 True = Inr al_1x1"
  by (simp add: BatchedAlignments_init_def al_1x1_def)

lemma al_trace_6_reached: "al_run al_1x1 al_steps_6 = Inr al_trace_6"
  by code_simp

lemma hyps_357_reached: "run_index hyps_1x1 steps_357 = Inr hyps_357"
  by code_simp

lemma hyps_357_wf: "hyps_wf hyps_357"
  by (simp add: hyps_wf_def hyps_357_def)

lemma al_trace_6_wf: "al_wf al_trace_6 1"
  by (simp add: al_wf_def al_trace_6_def)

lemma group_counts_runs:
  "concat (map2 replicate (group_counts x n ys) (remdups_adj (x # ys))) = replicate n x @ ys \<and>
   length (group_counts x n ys) = length (remdups_adj (x # ys))"
proof (induction ys arbitrary: x n)
  case Nil
  then show ?case by simp
next
  case (Cons y ys)
  show ?case
  proof (cases "x = y")
    case True
    then show ?thesis using Cons.IH [of y "Suc n"] by (simp add: replicate_app_Cons_same)
  next
    case False
    then show ?thesis using Cons.IH [of y 1] by simp
  qed
qed

lemma unique_consecutive_counts_runs:
  "concat (map2 replicate (unique_consecutive_counts xs) (remdups_adj xs)) = xs"
  "length (unique_consecutive_counts xs) = length (remdups_adj xs)"
  using group_counts_runs [of "hd xs" 1 "tl xs"]
  by (cases xs; simp add: unique_consecutive_counts_def)+

lemma group_counts_pos: "0 < n \<Longrightarrow> \<forall>c \<in> set (group_counts x n ys). 0 < c"
  by (induction ys arbitrary: x n) auto

lemma unique_consecutive_counts_pos: "\<forall>c \<in> set (unique_consecutive_counts xs). 0 < c"
  using group_counts_pos [of 1 "hd xs" "tl xs"]
  by (cases xs) (simp_all add: unique_consecutive_counts_def)

lemma al_trace_010_reached: "al_run al_1x1 al_steps_010 = Inr al_trace_010"
  by code_simp

subsection \<open>The best completed hypothesis\<close>

lemma last_filter_same: "xs \<noteq> [] \<Longrightarrow> P (last xs) \<Longrightarrow> last (filter P xs) = last xs"
proof (induction xs)
  case Nil
  then show ?case by simp
next
  case (Cons a xs)
  show ?case
  proof (cases "xs = []")
    case True
    then show ?thesis using Cons.prems by simp
  next
    case False
    then have l: "last (filter P xs) = last xs" "P (last xs)" using Cons by simp_all
    have "last xs \<in> set xs" using False by simp
    then have "filter P xs \<noteq> []" using l(2) by (simp add: filter_empty_conv) blast
    then show ?thesis using l False by simp
  qed
qed

lemma sorted_key_last_max:
  "sorted (map f ys) \<Longrightarrow> y \<in> set ys \<Longrightarrow> f y \<le> f (last ys)"
  by (induction ys) auto

lemma hd_filter_first:
  "x \<in> set xs \<Longrightarrow> P x \<Longrightarrow>
   \<exists>pre post. xs = pre @ hd (filter P xs) # post \<and> P (hd (filter P xs)) \<and> (\<forall>y \<in> set pre. \<not> P y)"
proof (induction xs)
  case Nil
  then show ?case by simp
next
  case (Cons a xs)
  show ?case
  proof (cases "P a")
    case True
    then have "a # xs = [] @ hd (filter P (a # xs)) # xs \<and> P (hd (filter P (a # xs))) \<and>
       (\<forall>y \<in> set []. \<not> P y)" by simp
    then show ?thesis by blast
  next
    case False
    then have "x \<in> set xs" using Cons.prems by auto
    from Cons.IH [OF this Cons.prems(2)] obtain pre post where
      p: "xs = pre @ hd (filter P xs) # post" "P (hd (filter P xs))" "\<forall>y \<in> set pre. \<not> P y"
      by blast
    have "a # xs = (a # pre) @ hd (filter P (a # xs)) # post \<and> P (hd (filter P (a # xs))) \<and>
       (\<forall>y \<in> set (a # pre). \<not> P y)"
      using p False by simp
    then show ?thesis by blast
  qed
qed

lemma sorted_reverse_head:
  fixes key :: "'a \<Rightarrow> real"
  assumes ne: "xs \<noteq> []"
  shows "\<exists>best pre post. nth_e (sorted_reverse key xs) 0 = Inr best \<and> xs = pre @ best # post \<and>
     (\<forall>h \<in> set xs. key h \<le> key best) \<and> (\<forall>h \<in> set pre. key h < key best)"
proof -
  define ys where "ys = sort_key key (rev xs)"
  define best where "best = last ys"
  have yne: "ys \<noteq> []" using ne by (metis ys_def length_sort length_rev length_0_conv)
  have sy: "set ys = set xs" by (simp add: ys_def)
  have srt: "sorted (map key ys)" by (simp add: ys_def)
  have bin: "best \<in> set xs" using yne sy best_def last_in_set by blast
  have mx: "\<forall>h \<in> set xs. key h \<le> key best"
    using sorted_key_last_max [OF srt] sy best_def by blast
  let ?P = "\<lambda>y. key y = key best"
  have "filter ?P ys = rev (filter ?P xs)"
    unfolding ys_def by (simp only: sort_key_stable rev_filter)
  moreover have "last (filter ?P ys) = best"
    using last_filter_same [OF yne, of ?P] best_def by simp
  moreover have "filter ?P xs \<noteq> []" using bin by (simp add: filter_empty_conv) blast
  ultimately have hd: "hd (filter ?P xs) = best" by (simp add: last_rev)
  from hd_filter_first [OF bin, of ?P] hd obtain pre post where
    d: "xs = pre @ best # post" "\<forall>y \<in> set pre. key y \<noteq> key best" by auto
  have lt: "\<forall>h \<in> set pre. key h < key best"
  proof
    fix h assume h: "h \<in> set pre"
    then have "h \<in> set xs" using d(1) by (metis in_set_conv_decomp append_assoc append_Cons UnCI set_append)
    then show "key h < key best" using mx d(2) h by fastforce
  qed
  have "sorted_reverse key xs = rev ys" by (simp add: sorted_reverse_def ys_def)
  then have "nth_e (sorted_reverse key xs) 0 = Inr best"
    using yne by (simp add: nth_e_def best_def hd_rev hd_conv_nth [symmetric])
  then show ?thesis using d(1) mx lt by blast
qed

lemma sorted_reverse_empty: "nth_e (sorted_reverse key []) 0 = Inl IndexError"
  by (simp add: sorted_reverse_def nth_e_def)

lemma beam_1x3_init: "BeamBatchedHyps_init 1 3 [10] 2 = Inr beam_1x3"
  by (simp add: BeamBatchedHyps_init_def beam_1x3_def Let_def numeral_2_eq_2 numeral_3_eq_3)

lemma map_e_Inl:
  "x \<in> set xs \<Longrightarrow> f x = Inl e \<Longrightarrow> \<forall>y \<in> set xs. f y = Inl e \<or> (\<exists>z. f y = Inr z)
     \<Longrightarrow> map_e f xs = Inl e"
proof (induction xs)
  case Nil
  then show ?case by simp
next
  case (Cons a xs)
  show ?case
  proof (cases "f a")
    case (Inl e')
    then show ?thesis using Cons.prems(3) by auto
  next
    case (Inr z)
    then have "x \<in> set xs" using Cons.prems by auto
    then have "map_e f xs = Inl e" using Cons by simp
    then show ?thesis using Inr by simp
  qed
qed

subsection \<open>Shapes and the reordering of beams\<close>

lemma grid_nth: "grid B K m \<Longrightarrow> b < B \<Longrightarrow> length (m ! b) = K"
  by (simp add: grid_def)

lemma grid_length: "grid B K m \<Longrightarrow> length m = B"
  by (simp add: grid_def)

lemma grid3_nth:
  assumes "grid3 B K L m" and "b < B" and "k < K"
  shows "length (m ! b ! k) = L"
proof -
  have "m ! b \<in> set m" "length (m ! b) = K" using assms by (simp_all add: grid3_def grid_def)
  then have "m ! b ! k \<in> set (m ! b)" using assms(3) by simp
  then show ?thesis using assms(1) \<open>m ! b \<in> set m\<close> by (simp add: grid3_def)
qed

lemma grid3_grid: "grid3 B K L m \<Longrightarrow> grid B K m"
  by (simp add: grid3_def)

lemma gridI: "length m = B \<Longrightarrow> (\<And>b. b < B \<Longrightarrow> length (m ! b) = K) \<Longrightarrow> grid B K m"
  by (auto simp: grid_def in_set_conv_nth)

lemma grid3I:
  "length m = B \<Longrightarrow> (\<And>b. b < B \<Longrightarrow> length (m ! b) = K) \<Longrightarrow>
   (\<And>b k. b < B \<Longrightarrow> k < K \<Longrightarrow> length (m ! b ! k) = L) \<Longrightarrow> grid3 B K L m"
  by (auto simp: grid3_def grid_def in_set_conv_nth)

lemma valid_beam_idx_mem:
  assumes "valid_beam_idx B K idx" and "b < B" and "j \<in> set (idx ! b)"
  shows "0 \<le> j \<and> j < int K \<and> nat j < K"
proof -
  have "idx ! b \<in> set idx" using assms by (simp add: valid_beam_idx_def grid_def)
  then have "0 \<le> j \<and> j < int K" using assms by (simp add: valid_beam_idx_def)
  then show ?thesis by linarith
qed

lemma valid_beam_idx_nth:
  assumes "valid_beam_idx B K idx" and "b < B" and "k < K"
  shows "0 \<le> idx ! b ! k \<and> nat (idx ! b ! k) < K"
proof -
  have "length (idx ! b) = K" using assms by (simp add: valid_beam_idx_def grid_def)
  then have "idx ! b ! k \<in> set (idx ! b)" using assms(3) by simp
  from valid_beam_idx_mem [OF assms(1,2) this] show ?thesis by simp
qed

lemma gather2_ok:
  assumes m: "grid B K m" and idx: "valid_beam_idx B K idx"
  shows "gather2 m idx = Inr (map (\<lambda>b. map (\<lambda>j. m ! b ! nat j) (idx ! b)) [0..<B])"
proof -
  have l: "length idx = B" "length m = B" using m idx by (simp_all add: valid_beam_idx_def grid_def)
  have "\<forall>b \<in> set [0..<length idx]. \<forall>j \<in> set (idx ! b). 0 \<le> j \<and> j < int (length (m ! b))"
    using m idx l by (auto simp: valid_beam_idx_def grid_def)
  then show ?thesis unfolding gather2_def using l by simp
qed

lemma gather3_ok:
  assumes m: "grid3 B K L m" and idx: "valid_beam_idx B K idx"
  shows "gather3 L m idx = Inr (map (\<lambda>b. map (\<lambda>j. m ! b ! nat j) (idx ! b)) [0..<B])"
proof -
  have l: "length idx = B" "length m = B" using m idx by (simp_all add: valid_beam_idx_def grid_def grid3_def)
  have a: "\<forall>b \<in> set [0..<length idx]. \<forall>j \<in> set (idx ! b). 0 \<le> j \<and> j < int (length (m ! b))"
    using m idx l by (auto simp: valid_beam_idx_def grid_def grid3_def)
  have b: "\<forall>rows \<in> set m. \<forall>row \<in> set rows. L \<le> length row"
    using m by (simp add: grid3_def)
  have "take L (m ! b ! nat j) = m ! b ! nat j" if "b < B" "j \<in> set (idx ! b)" for b j
  proof -
    have "0 \<le> j" "nat j < K" using valid_beam_idx_mem [OF idx that] by simp_all
    then show ?thesis using grid3_nth [OF m that(1), of "nat j"] by simp
  qed
  then have "map (\<lambda>b. map (\<lambda>j. take L (m ! b ! nat j)) (idx ! b)) [0..<B]
     = map (\<lambda>b. map (\<lambda>j. m ! b ! nat j) (idx ! b)) [0..<B]"
    by simp
  then show ?thesis unfolding gather3_def using l a b by simp
qed

lemma reordered_nth:
  "valid_beam_idx B K idx \<Longrightarrow> b < B \<Longrightarrow> k < K \<Longrightarrow>
   map (\<lambda>b. map (\<lambda>j. m ! b ! nat j) (idx ! b)) [0..<B] ! b ! k = m ! b ! nat (idx ! b ! k)"
  by (simp add: valid_beam_idx_def grid_def)

lemma reordered_grid:
  "valid_beam_idx B K idx \<Longrightarrow> grid B K (map (\<lambda>b. map (\<lambda>j. m ! b ! nat j) (idx ! b)) [0..<B])"
  by (auto simp: valid_beam_idx_def grid_def)

lemma reordered_grid3:
  assumes "valid_beam_idx B K idx" and "grid3 B K L m"
  shows "grid3 B K L (map (\<lambda>b. map (\<lambda>j. m ! b ! nat j) (idx ! b)) [0..<B])"
proof (rule grid3I)
  show "length (map (\<lambda>b. map (\<lambda>j. m ! b ! nat j) (idx ! b)) [0..<B]) = B" by simp
next
  fix b assume "b < B"
  then show "length (map (\<lambda>b. map (\<lambda>j. m ! b ! nat j) (idx ! b)) [0..<B] ! b) = K"
    using assms(1) by (simp add: valid_beam_idx_def grid_def)
next
  fix b k assume b: "b < B" "k < K"
  have "nat (idx ! b ! k) < K" using valid_beam_idx_nth [OF assms(1) b] by simp
  then show "length (map (\<lambda>b. map (\<lambda>j. m ! b ! nat j) (idx ! b)) [0..<B] ! b ! k) = L"
    using reordered_nth [OF assms(1) b, of m] grid3_nth [OF assms(2) b(1)] by simp
qed

lemma update_beam_reorder_ok:
  assumes sh: "beam_shape h" and idx: "valid_beam_idx (bm_batch_size h) (bm_beam_size h) beam_idx"
  shows "update_beam_reorder h beam_idx = Inr (h
     \<lparr> bm_scores := map (\<lambda>b. map (\<lambda>j. bm_scores h ! b ! nat j) (beam_idx ! b)) [0..<bm_batch_size h],
       bm_last_timestep :=
         map (\<lambda>b. map (\<lambda>j. bm_last_timestep h ! b ! nat j) (beam_idx ! b)) [0..<bm_batch_size h],
       bm_current_lengths :=
         map (\<lambda>b. map (\<lambda>j. bm_current_lengths h ! b ! nat j) (beam_idx ! b)) [0..<bm_batch_size h],
       bm_last_timestep_repetitions :=
         map (\<lambda>b. map (\<lambda>j. bm_last_timestep_repetitions h ! b ! nat j) (beam_idx ! b))
           [0..<bm_batch_size h],
       bm_timesteps :=
         map (\<lambda>b. map (\<lambda>j. bm_timesteps h ! b ! nat j) (beam_idx ! b)) [0..<bm_batch_size h],
       bm_transcripts :=
         map (\<lambda>b. map (\<lambda>j. bm_transcripts h ! b ! nat j) (beam_idx ! b)) [0..<bm_batch_size h],
       bm_timesteps_end :=
         map (\<lambda>b. map (\<lambda>j. bm_timesteps_end h ! b ! nat j) (beam_idx ! b)) [0..<bm_batch_size h],
       bm_full_timesteps :=
         map (\<lambda>b. map (\<lambda>j. bm_full_timesteps h ! b ! nat j) (beam_idx ! b)) [0..<bm_batch_size h],
       bm_label_scores :=
         map (\<lambda>b. map (\<lambda>j. bm_label_scores h ! b ! nat j) (beam_idx ! b)) [0..<bm_batch_size h],
       bm_blank_scores :=
         map (\<lambda>b. map (\<lambda>j. bm_blank_scores h ! b ! nat j) (beam_idx ! b)) [0..<bm_batch_size h],
       bm_total_scores :=
         map (\<lambda>b. map (\<lambda>j. bm_total_scores h ! b ! nat j) (beam_idx ! b)) [0..<bm_batch_size h],
       bm_token_scores :=
         map (\<lambda>b. map (\<lambda>j. bm_token_scores h ! b ! nat j) (beam_idx ! b)) [0..<bm_batch_size h],
       bm_full_current_lengths :=
         map (\<lambda>b. map (\<lambda>j. bm_full_current_lengths h ! b ! nat j) (beam_idx ! b))
           [0..<bm_batch_size h],
       bm_full_transcripts :=
         map (\<lambda>b. map (\<lambda>j. bm_full_transcripts h ! b ! nat j) (beam_idx ! b))
           [0..<bm_batch_size h] \<rparr>)"
proof -
  have g2: "gather2 (bm_scores h) beam_idx = Inr (map (\<lambda>b. map (\<lambda>j. bm_scores h ! b ! nat j) (beam_idx ! b)) [0..<bm_batch_size h])"
    "gather2 (bm_last_timestep h) beam_idx = Inr (map (\<lambda>b. map (\<lambda>j. bm_last_timestep h ! b ! nat j) (beam_idx ! b)) [0..<bm_batch_size h])"
    "gather2 (bm_current_lengths h) beam_idx = Inr (map (\<lambda>b. map (\<lambda>j. bm_current_lengths h ! b ! nat j) (beam_idx ! b)) [0..<bm_batch_size h])"
    "gather2 (bm_last_timestep_repetitions h) beam_idx = Inr (map (\<lambda>b. map (\<lambda>j. bm_last_timestep_repetitions h ! b ! nat j) (beam_idx ! b)) [0..<bm_batch_size h])"
    "gather2 (bm_label_scores h) beam_idx = Inr (map (\<lambda>b. map (\<lambda>j. bm_label_scores h ! b ! nat j) (beam_idx ! b)) [0..<bm_batch_size h])"
    "gather2 (bm_blank_scores h) beam_idx = Inr (map (\<lambda>b. map (\<lambda>j. bm_blank_scores h ! b ! nat j) (beam_idx ! b)) [0..<bm_batch_size h])"
    "gather2 (bm_full_current_lengths h) beam_idx = Inr (map (\<lambda>b. map (\<lambda>j. bm_full_current_lengths h ! b ! nat j) (beam_idx ! b)) [0..<bm_batch_size h])"
    using sh by (auto simp: beam_shape_def intro!: gather2_ok [OF _ idx])
  have g3: "gather3 (bm_max_length h) (bm_timesteps h) beam_idx = Inr (map (\<lambda>b. map (\<lambda>j. bm_timesteps h ! b ! nat j) (beam_idx ! b)) [0..<bm_batch_size h])"
    "gather3 (bm_max_length h) (bm_transcripts h) beam_idx = Inr (map (\<lambda>b. map (\<lambda>j. bm_transcripts h ! b ! nat j) (beam_idx ! b)) [0..<bm_batch_size h])"
    "gather3 (bm_max_length h) (bm_timesteps_end h) beam_idx = Inr (map (\<lambda>b. map (\<lambda>j. bm_timesteps_end h ! b ! nat j) (beam_idx ! b)) [0..<bm_batch_size h])"
    "gather3 (bm_max_length h) (bm_full_timesteps h) beam_idx = Inr (map (\<lambda>b. map (\<lambda>j. bm_full_timesteps h ! b ! nat j) (beam_idx ! b)) [0..<bm_batch_size h])"
    "gather3 (bm_max_length h) (bm_total_scores h) beam_idx = Inr (map (\<lambda>b. map (\<lambda>j. bm_total_scores h ! b ! nat j) (beam_idx ! b)) [0..<bm_batch_size h])"
    "gather3 (bm_max_length h) (bm_token_scores h) beam_idx = Inr (map (\<lambda>b. map (\<lambda>j. bm_token_scores h ! b ! nat j) (beam_idx ! b)) [0..<bm_batch_size h])"
    "gather3 (bm_max_length h) (bm_full_transcripts h) beam_idx = Inr (map (\<lambda>b. map (\<lambda>j. bm_full_transcripts h ! b ! nat j) (beam_idx ! b)) [0..<bm_batch_size h])"
    using sh by (auto simp: beam_shape_def intro!: gather3_ok [OF _ idx])
  have a: "(\<not> (\<forall>rows \<in> set (bm_full_transcripts h). \<forall>row \<in> set rows.
      length row = bm_max_length h)) = False"
    using sh by (simp add: beam_shape_def grid3_def)
  show ?thesis
    unfolding update_beam_reorder_def Let_def
    by (simp only: g2 g3 ebind_Inr a if_False)
qed

lemma beam_one_reached:
  "append_labels beam_1x3 [[5, 6, 7]] [[- 1 / 2, - 1, - 2]] [[- 1 / 10, 0, - 1]]
     [[[- 1 / 10], [0], [- 1]]] [[1, 0, 1]] = Inr beam_one"
  by code_simp

lemma beam_one_shape: "beam_shape beam_one"
  by (simp add: beam_shape_def beam_one_def grid_def grid3_def)

subsection \<open>Claim C5: the mask-based path and inactive items\<close>

text \<open>
  Claim C5, as stated, says that for an item whose mask entry is 0 the stored transcript and
  timesteps contents are unchanged. \<open>add_results_masked_no_checks_\<close> writes
  \<open>labels[b]\<close> and \<open>time_indices[b]\<close> at position \<open>current_lengths[b]\<close> of
  every row, also of the inactive ones: with mask \<open>[True, False]\<close>, labels \<open>[5, 9]\<close>
  and time indices \<open>[2, 7]\<close> on a fresh 2 x 2 buffer, row 1 of the transcript becomes
  \<open>[9, 0]\<close> and row 1 of the timesteps becomes \<open>[7, 0]\<close>.
\<close>

theorem masked_inactive_cell_overwritten:
  "BatchedHyps_init 2 2 = Inr hyps_2x2 \<and> \<not> [True, False] ! 1 \<and>
   transcript hyps_2x2 ! 1 = [0, 0] \<and> timesteps hyps_2x2 ! 1 = [0, 0] \<and>
   map_sum id (\<lambda>h'. (transcript h' ! 1, timesteps h' ! 1))
     (add_results_masked hyps_2x2 [True, False] [5, 9] [2, 7] [- 1, - 2])
     = Inr ([9, 0], [7, 0])"
  by (simp add: hyps_2x2_init)
     (simp add: hyps_2x2_def add_results_masked_def add_results_masked_no_checks_def
       zip_with_def tensor_max_def mask_val_def index_put2_def)


text \<open>
  Claim C5, amended: for every item \<open>b\<close> whose mask entry is 0, a mask-based append on a
  well-formed buffer leaves \<open>current_lengths[b]\<close>, \<open>scores[b]\<close>, \<open>last_timestep[b]\<close>,
  \<open>last_timestep_lasts[b]\<close> and the logical contents
  \<open>transcript[b, 0:current_lengths[b]]\<close>, \<open>timesteps[b, 0:current_lengths[b]]\<close>
  unchanged; the cell at index \<open>current_lengths[b]\<close> of the stored rows, outside the
  logical contents, is overwritten with \<open>labels[b]\<close> and \<open>time_indices[b]\<close>, and
  every other cell of the rows that existed before the call keeps its value. Items with mask
  entry 1 advance their cursor by one. The call never raises.
\<close>

theorem add_results_masked_inactive_untouched:
  assumes "hyps_wf h" and "valid_mask_args (batch_size h) m l t s"
  shows "\<exists>h'. add_results_masked h m l t s = Inr h' \<and>
     (\<forall>b < batch_size h.
        (\<not> m ! b \<longrightarrow>
           current_lengths h' ! b = current_lengths h ! b \<and>
           scores h' ! b = scores h ! b \<and>
           last_timestep h' ! b = last_timestep h ! b \<and>
           last_timestep_lasts h' ! b = last_timestep_lasts h ! b \<and>
           take (current_lengths h ! b) (transcript h' ! b)
             = take (current_lengths h ! b) (transcript h ! b) \<and>
           take (current_lengths h ! b) (timesteps h' ! b)
             = take (current_lengths h ! b) (timesteps h ! b) \<and>
           transcript h' ! b ! (current_lengths h ! b) = l ! b \<and>
           timesteps h' ! b ! (current_lengths h ! b) = t ! b \<and>
           (\<forall>j < max_length h. j \<noteq> current_lengths h ! b \<longrightarrow>
              transcript h' ! b ! j = transcript h ! b ! j \<and>
              timesteps h' ! b ! j = timesteps h ! b ! j)) \<and>
        (m ! b \<longrightarrow> current_lengths h' ! b = current_lengths h ! b + 1))"
proof -
  obtain h' where run: "add_results_masked h m l t s = Inr h'"
    and view: "\<forall>b < batch_size h.
       item_view h' b = append_item (item_view h b) (mask_update m l t s b)"
    using add_results_masked_step [OF assms] by blast
  obtain h'' where run': "add_results_masked h m l t s = Inr h''"
    and cells: "\<forall>b < batch_size h.
              transcript h'' ! b =
                (transcript h ! b @ replicate (max_length h'' - max_length h) 0)
                  [current_lengths h ! b := l ! b] \<and>
              timesteps h'' ! b =
                (timesteps h ! b @ replicate (max_length h'' - max_length h) 0)
                  [current_lengths h ! b := t ! b] \<and>
              current_lengths h ! b < max_length h'' \<and> max_length h \<le> max_length h''"
    using add_results_masked_rows [OF assms] by blast
  have same: "h'' = h'" using run run' by simp
  have rows: "length (transcript h ! b) = max_length h" "length (timesteps h ! b) = max_length h"
    if "b < batch_size h" for b
    using that assms(1) by (simp_all add: hyps_wf_def)
  have "(\<not> m ! b \<longrightarrow>
           current_lengths h' ! b = current_lengths h ! b \<and>
           scores h' ! b = scores h ! b \<and>
           last_timestep h' ! b = last_timestep h ! b \<and>
           last_timestep_lasts h' ! b = last_timestep_lasts h ! b \<and>
           take (current_lengths h ! b) (transcript h' ! b)
             = take (current_lengths h ! b) (transcript h ! b) \<and>
           take (current_lengths h ! b) (timesteps h' ! b)
             = take (current_lengths h ! b) (timesteps h ! b) \<and>
           transcript h' ! b ! (current_lengths h ! b) = l ! b \<and>
           timesteps h' ! b ! (current_lengths h ! b) = t ! b \<and>
           (\<forall>j < max_length h. j \<noteq> current_lengths h ! b \<longrightarrow>
              transcript h' ! b ! j = transcript h ! b ! j \<and>
              timesteps h' ! b ! j = timesteps h ! b ! j)) \<and>
        (m ! b \<longrightarrow> current_lengths h' ! b = current_lengths h ! b + 1)"
    if b: "b < batch_size h" for b
  proof -
    have v: "item_view h' b = append_item (item_view h b) (mask_update m l t s b)"
      using view b by blast
    have c: "transcript h' ! b =
                (transcript h ! b @ replicate (max_length h' - max_length h) 0)
                  [current_lengths h ! b := l ! b]"
      "timesteps h' ! b =
                (timesteps h ! b @ replicate (max_length h' - max_length h) 0)
                  [current_lengths h ! b := t ! b]"
      "current_lengths h ! b < max_length h'" "max_length h \<le> max_length h'"
      using cells b same by blast+
    have cell: "transcript h' ! b ! (current_lengths h ! b) = l ! b"
      "timesteps h' ! b ! (current_lengths h ! b) = t ! b"
      using c rows [OF b] by simp_all
    have rest: "transcript h' ! b ! j = transcript h ! b ! j \<and>
        timesteps h' ! b ! j = timesteps h ! b ! j"
      if "j < max_length h" "j \<noteq> current_lengths h ! b" for j
      using that c(1,2) rows [OF b] by (simp add: nth_append)
    show ?thesis
      using v cell rest by (cases "m ! b") (auto simp: item_view_def mask_update_def)
  qed
  then show ?thesis using run by blast
qed

text \<open>
  The theorem at the buffer \<open>hyps_2x2_used\<close>, whose two items hold one entry each, with
  item 1 inactive: the call doubles the capacity, item 1 keeps its length 1, its score
  \<open>-1/4\<close>, its entry \<open>4\<close> at frame \<open>1\<close>, and receives \<open>9\<close> and \<open>7\<close> in the cell at
  its cursor.
\<close>

theorem add_results_masked_inactive_untouched_witness:
  "hyps_wf hyps_2x2_used \<and>
   valid_mask_args (batch_size hyps_2x2_used) [True, False] [5, 9] [2, 7] [- 1, - 2] \<and>
   \<not> [True, False] ! 1 \<and>
   (\<exists>h'. add_results_masked hyps_2x2_used [True, False] [5, 9] [2, 7] [- 1, - 2] = Inr h' \<and>
      current_lengths h' ! 1 = 1 \<and> scores h' ! 1 = - 1 / 4 \<and>
      last_timestep h' ! 1 = 1 \<and> last_timestep_lasts h' ! 1 = 1 \<and>
      take 1 (transcript h' ! 1) = [4] \<and> take 1 (timesteps h' ! 1) = [1] \<and>
      transcript h' ! 1 ! 1 = 9 \<and> timesteps h' ! 1 ! 1 = 7 \<and>
      transcript h' ! 1 ! 0 = 4 \<and> timesteps h' ! 1 ! 0 = 1 \<and>
      current_lengths h' ! 0 = 2)"
proof -
  have w: "hyps_wf hyps_2x2_used" by (rule hyps_2x2_used_wf)
  have v: "valid_mask_args (batch_size hyps_2x2_used) [True, False] [5, 9] [2, 7] [- 1, - 2]"
    by (simp add: valid_mask_args_def hyps_2x2_used_def)
  from add_results_masked_inactive_untouched [OF w v] obtain h' where
    run: "add_results_masked hyps_2x2_used [True, False] [5, 9] [2, 7] [- 1, - 2] = Inr h'"
    and all: "\<forall>b < batch_size hyps_2x2_used.
        (\<not> [True, False] ! b \<longrightarrow>
           current_lengths h' ! b = current_lengths hyps_2x2_used ! b \<and>
           scores h' ! b = scores hyps_2x2_used ! b \<and>
           last_timestep h' ! b = last_timestep hyps_2x2_used ! b \<and>
           last_timestep_lasts h' ! b = last_timestep_lasts hyps_2x2_used ! b \<and>
           take (current_lengths hyps_2x2_used ! b) (transcript h' ! b)
             = take (current_lengths hyps_2x2_used ! b) (transcript hyps_2x2_used ! b) \<and>
           take (current_lengths hyps_2x2_used ! b) (timesteps h' ! b)
             = take (current_lengths hyps_2x2_used ! b) (timesteps hyps_2x2_used ! b) \<and>
           transcript h' ! b ! (current_lengths hyps_2x2_used ! b) = [5, 9] ! b \<and>
           timesteps h' ! b ! (current_lengths hyps_2x2_used ! b) = [2, 7] ! b \<and>
           (\<forall>j < max_length hyps_2x2_used. j \<noteq> current_lengths hyps_2x2_used ! b \<longrightarrow>
              transcript h' ! b ! j = transcript hyps_2x2_used ! b ! j \<and>
              timesteps h' ! b ! j = timesteps hyps_2x2_used ! b ! j)) \<and>
        ([True, False] ! b \<longrightarrow>
           current_lengths h' ! b = current_lengths hyps_2x2_used ! b + 1)"
    by blast
  have i1: "\<not> [True, False] ! 1 \<longrightarrow>
           current_lengths h' ! 1 = current_lengths hyps_2x2_used ! 1 \<and>
           scores h' ! 1 = scores hyps_2x2_used ! 1 \<and>
           last_timestep h' ! 1 = last_timestep hyps_2x2_used ! 1 \<and>
           last_timestep_lasts h' ! 1 = last_timestep_lasts hyps_2x2_used ! 1 \<and>
           take (current_lengths hyps_2x2_used ! 1) (transcript h' ! 1)
             = take (current_lengths hyps_2x2_used ! 1) (transcript hyps_2x2_used ! 1) \<and>
           take (current_lengths hyps_2x2_used ! 1) (timesteps h' ! 1)
             = take (current_lengths hyps_2x2_used ! 1) (timesteps hyps_2x2_used ! 1) \<and>
           transcript h' ! 1 ! (current_lengths hyps_2x2_used ! 1) = [5, 9] ! 1 \<and>
           timesteps h' ! 1 ! (current_lengths hyps_2x2_used ! 1) = [2, 7] ! 1 \<and>
           (\<forall>j < max_length hyps_2x2_used. j \<noteq> current_lengths hyps_2x2_used ! 1 \<longrightarrow>
              transcript h' ! 1 ! j = transcript hyps_2x2_used ! 1 ! j \<and>
              timesteps h' ! 1 ! j = timesteps hyps_2x2_used ! 1 ! j)"
    using all [rule_format, of 1] by (simp add: hyps_2x2_used_def)
  have i0: "current_lengths h' ! 0 = current_lengths hyps_2x2_used ! 0 + 1"
    using all [rule_format, of 0] by (simp add: hyps_2x2_used_def)
  have j0: "transcript h' ! 1 ! 0 = transcript hyps_2x2_used ! 1 ! 0 \<and>
              timesteps h' ! 1 ! 0 = timesteps hyps_2x2_used ! 1 ! 0"
    using i1 by (simp add: hyps_2x2_used_def)
  show ?thesis
    using w v run i0 i1 j0 by (simp add: hyps_2x2_used_def)
qed

subsection \<open>Claim C1: the index-based and the mask-based path agree\<close>

text \<open>
  Claim C1: starting from one well-formed greedy buffer, a sequence of valid
  \<open>add_results_\<close> calls and a sequence of valid \<open>add_results_masked_\<close> calls that
  encode, step by step, the same logical updates (the same active items with the same
  labels, time indices and score increments) both run without raising and leave the same
  logical contents: for every item the same score, length, \<open>last_timestep\<close>,
  \<open>last_timestep_lasts\<close> and the same prefixes of transcript and timesteps up to the length.
\<close>

theorem index_and_mask_paths_agree:
  assumes "hyps_wf h" and "list_all2 (same_logical_updates (batch_size h)) ias mas"
  shows "\<exists>h1 h2. run_index h ias = Inr h1 \<and> run_masked h mas = Inr h2 \<and>
           logical_contents h1 = logical_contents h2"
proof -
  obtain r1 r2 where "run_index h ias = Inr r1" "run_masked h mas = Inr r2"
    "batch_size r1 = batch_size h" "batch_size r2 = batch_size h"
    "\<forall>b < batch_size h. item_view r1 b = item_view r2 b"
    using index_mask_sim [OF assms(2) assms(1) assms(1)] by auto
  then show ?thesis using logical_contents_eq by blast
qed


theorem index_and_mask_paths_agree_witness:
  "hyps_wf hyps_2x2 \<and>
   list_all2 (same_logical_updates (batch_size hyps_2x2))
     [([0], [5], [0], [1 / 2]), ([0, 1], [7, 8], [1, 1], [1, 1])]
     [([True, False], [5, 99], [0, 42], [1 / 2, 3]), ([True, True], [7, 8], [1, 1], [1, 1])] \<and>
   (\<exists>h1 h2. run_index hyps_2x2 [([0], [5], [0], [1 / 2]), ([0, 1], [7, 8], [1, 1], [1, 1])] = Inr h1 \<and>
      run_masked hyps_2x2
        [([True, False], [5, 99], [0, 42], [1 / 2, 3]), ([True, True], [7, 8], [1, 1], [1, 1])] = Inr h2 \<and>
      logical_contents h1 = logical_contents h2)"
proof -
  have w: "hyps_wf hyps_2x2" by (rule hyps_2x2_wf)
  have v: "list_all2 (same_logical_updates (batch_size hyps_2x2))
     [([0], [5], [0], [1 / 2]), ([0, 1], [7, 8], [1, 1], [1, 1])]
     [([True, False], [5, 99], [0, 42], [1 / 2, 3]), ([True, True], [7, 8], [1, 1], [1, 1])]"
    by (simp add: hyps_2x2_def valid_index_args_def valid_mask_args_def index_update_def
        mask_update_def numeral_2_eq_2 upt_rec)
  show ?thesis using w v index_and_mask_paths_agree [OF w v] by blast
qed

subsection \<open>Claim C8: capacity growth preserves the written data\<close>

text \<open>
  Claim C8: appending \<open>N\<close> entries one at a time (every step appends one entry to every
  item) to a greedy buffer constructed with initial capacity 1, which doubles repeatedly,
  yields for every item \<open>b\<close> the same \<open>labels[b, 0:N]\<close> and \<open>timesteps[b, 0:N]\<close> as
  appending the same entries to a buffer constructed with capacity \<open>L \<ge> N\<close>, which keeps
  its capacity \<open>L\<close>. Both runs return, and every item has length \<open>N\<close> afterwards.
\<close>

theorem growth_preserves_written_data:
  assumes "BatchedHyps_init B 1 = Inr g1" and "BatchedHyps_init B L = Inr g2"
    and "int (length steps) \<le> L" and "list_all (full_index_step (nat B)) steps"
  shows "\<exists>h1 h2. run_index g1 steps = Inr h1 \<and> run_index g2 steps = Inr h2 \<and>
     max_length h2 = nat L \<and>
     (\<forall>b < nat B.
        current_lengths h1 ! b = length steps \<and> current_lengths h2 ! b = length steps \<and>
        take (length steps) (transcript h1 ! b) = take (length steps) (transcript h2 ! b) \<and>
        take (length steps) (timesteps h1 ! b) = take (length steps) (timesteps h2 ! b))"
proof -
  note i1 = init_facts [OF assms(1)] and i2 = init_facts [OF assms(2)]
  have c1: "\<forall>b < nat B. current_lengths g1 ! b = 0" and c2: "\<forall>b < nat B. current_lengths g2 ! b = 0"
    using i1(4) i2(4) by simp_all
  have v0: "\<forall>b < nat B. item_view g1 b = item_view g2 b"
    using i1(5) i2(5) by simp
  obtain r1 r2 where r: "run_index g1 steps = Inr r1" "run_index g2 steps = Inr r2"
    "\<forall>b < nat B. item_view r1 b = item_view r2 b"
    using run_index_sim [OF full_steps_valid [OF assms(4)] i1(1) i2(1) i1(2) i2(2) v0] by blast
  have l1: "\<forall>b < nat B. current_lengths r1 ! b = length steps"
    using run_index_full [OF assms(4) i1(1) i1(2) c1] r(1) by auto
  have l2: "\<forall>b < nat B. current_lengths r2 ! b = length steps"
    and m2: "max_length r2 = nat L"
    using run_index_full [OF assms(4) i2(1) i2(2) c2] r(2) assms(3) i2(3) by auto
  have "take (length steps) (transcript r1 ! b) = take (length steps) (transcript r2 ! b) \<and>
        take (length steps) (timesteps r1 ! b) = take (length steps) (timesteps r2 ! b)"
    if "b < nat B" for b
    using r(3) l1 l2 that by (auto simp: item_view_def)
  then show ?thesis using r(1,2) l1 l2 m2 by blast
qed

theorem growth_preserves_written_data_witness:
  "BatchedHyps_init 2 1 = Inr (projr (BatchedHyps_init 2 1)) \<and>
   BatchedHyps_init 2 4 = Inr (projr (BatchedHyps_init 2 4)) \<and>
   int (length full_steps_3) \<le> 4 \<and>
   list_all (full_index_step (nat 2)) full_steps_3 \<and>
   (\<exists>h1 h2.
      run_index (projr (BatchedHyps_init 2 1)) full_steps_3 = Inr h1 \<and>
      run_index (projr (BatchedHyps_init 2 4)) full_steps_3 = Inr h2 \<and>
      max_length h2 = nat 4 \<and>
      take (length full_steps_3) (transcript h1 ! 0) = take (length full_steps_3) (transcript h2 ! 0) \<and>
      take (length full_steps_3) (transcript h1 ! 1) = take (length full_steps_3) (transcript h2 ! 1))"
proof -
  have a: "BatchedHyps_init 2 1 = Inr (projr (BatchedHyps_init 2 1))"
    by (simp add: BatchedHyps_init_def)
  have b: "BatchedHyps_init 2 4 = Inr (projr (BatchedHyps_init 2 4))"
    by (simp add: BatchedHyps_init_def)
  have c: "int (length full_steps_3) \<le> 4"
    by (simp add: full_steps_3_def)
  have d: "list_all (full_index_step (nat 2)) full_steps_3"
    by (simp add: full_steps_3_def valid_index_args_def numeral_2_eq_2 upt_rec)
  have n: "(0::nat) < nat 2" "(1::nat) < nat 2" by simp_all
  from growth_preserves_written_data [OF a b c d] obtain h1 h2 where
    "run_index (projr (BatchedHyps_init 2 1)) full_steps_3 = Inr h1"
    "run_index (projr (BatchedHyps_init 2 4)) full_steps_3 = Inr h2"
    "max_length h2 = nat 4"
    "\<forall>b < nat 2. take (length full_steps_3) (transcript h1 ! b)
        = take (length full_steps_3) (transcript h2 ! b)"
    by auto
  then show ?thesis using a b c d n by auto
qed

subsection \<open>Claim C3: materializing a greedy buffer\<close>

text \<open>
  Claim C3, as stated, says that the \<open>length\<close> field of a materialized \<open>Hypothesis\<close>
  equals the number of labels. \<open>batched_hyps_to_hypotheses\<close> never passes \<open>length\<close> to
  the constructor, so the field keeps its documented default 0: after appending the labels
  3, 5, 7 at the frames 0, 2, 2 to item 0 (from capacity 1, through two reallocations) the
  hypothesis has the label sequence \<open>[3, 5, 7]\<close>, the timesteps \<open>[0, 2, 2]\<close> and
  \<open>length = 0\<close>.
\<close>

theorem materialized_length_field_is_default:
  "BatchedHyps_init 1 1 = Inr hyps_1x1 \<and>
   decode_greedy hyps_1x1 steps_357 =
     Inr [\<lparr> score = 0, y_sequence = [3, 5, 7], label_score = None, blank_score = None,
            token_scores = None, timestep = [0, 2, 2], alignments = None,
            frame_confidence = None, length_field = 0 \<rparr>]"
  by code_simp

text \<open>
  Claim C3, amended: materializing a well-formed greedy buffer (with \<open>batch_size\<close> absent or
  at most the buffer's batch size) returns; every \<open>Hypothesis\<close> it produces, with or without
  an alignment buffer, has \<open>y_sequence = transcript[i, :current_lengths[i]]\<close> and
  \<open>timestep = timesteps[i, :current_lengths[i]]\<close>, so that
  \<open>len(y_sequence) = len(timestep) = current_lengths[i]\<close>, and its \<open>length\<close> field is the
  default 0. For the appends of 3, 5, 7 at frames 0, 2, 2 this gives \<open>[3, 5, 7]\<close> and
  \<open>[0, 2, 2]\<close>, both of length 3.
\<close>

theorem materialized_hypothesis_lengths:
  assumes "hyps_wf h" and "case bs of None \<Rightarrow> True | Some n \<Rightarrow> n \<le> int (batch_size h)"
  shows "(\<exists>hyps :: ('l, 'c) Hypothesis list. batched_hyps_to_hypotheses h None bs = Inr hyps) \<and>
    (\<forall>al (hyps :: ('l, 'c) Hypothesis list). batched_hyps_to_hypotheses h al bs = Inr hyps \<longrightarrow>
       length hyps = (case bs of None \<Rightarrow> batch_size h | Some n \<Rightarrow> nat n) \<and>
       (\<forall>i < length hyps.
          y_sequence (hyps ! i) = take (current_lengths h ! i) (transcript h ! i) \<and>
          timestep (hyps ! i) = take (current_lengths h ! i) (timesteps h ! i) \<and>
          length (y_sequence (hyps ! i)) = current_lengths h ! i \<and>
          length (timestep (hyps ! i)) = current_lengths h ! i \<and>
          length_field (hyps ! i) = 0))"
proof -
  define num where "num = (case bs of None \<Rightarrow> batch_size h | Some n \<Rightarrow> nat n)"
  define base :: "('l, 'c) Hypothesis list" where "base = map (\<lambda>i. make_Hypothesis (scores h ! i)
                  (take (current_lengths h ! i) (transcript h ! i))
                  (take (current_lengths h ! i) (timesteps h ! i))) [0..<num]"
  have g1: "batched_hyps_to_hypotheses h al bs =
     (case al of None \<Rightarrow> Inr base
      | Some a \<Rightarrow> map_e (\<lambda>(i, hyp). add_alignments a i hyp) (zip [0..<num] base))"
    for al :: "('l, 'c) BatchedAlignments option"
    using greedy_hypotheses(1) [OF assms, of al] unfolding num_def base_def .
  have g2: "num \<le> batch_size h"
    using greedy_hypotheses(2) [OF assms] unfolding num_def .
  have wfl: "\<And>i. i < batch_size h \<Longrightarrow> current_lengths h ! i \<le> length (transcript h ! i) \<and>
        current_lengths h ! i \<le> length (timesteps h ! i)"
    using assms(1) by (simp add: hyps_wf_def)
  have b: "y_sequence (base ! i) = take (current_lengths h ! i) (transcript h ! i) \<and>
          timestep (base ! i) = take (current_lengths h ! i) (timesteps h ! i) \<and>
          length (y_sequence (base ! i)) = current_lengths h ! i \<and>
          length (timestep (base ! i)) = current_lengths h ! i \<and>
          length_field (base ! i) = 0" if "i < num" for i
    using that wfl [of i] g2 by (simp add: base_def make_Hypothesis_def min_def)
  have lb: "length base = num" by (simp add: base_def)
  have one: "\<exists>hyps :: ('l, 'c) Hypothesis list. batched_hyps_to_hypotheses h None bs = Inr hyps"
    using g1 [of None] by simp
  have two: "length hyps = num \<and>
       (\<forall>i < length hyps.
          y_sequence (hyps ! i) = take (current_lengths h ! i) (transcript h ! i) \<and>
          timestep (hyps ! i) = take (current_lengths h ! i) (timesteps h ! i) \<and>
          length (y_sequence (hyps ! i)) = current_lengths h ! i \<and>
          length (timestep (hyps ! i)) = current_lengths h ! i \<and>
          length_field (hyps ! i) = 0)"
    if r: "batched_hyps_to_hypotheses h al bs = Inr hyps"
    for al and hyps :: "('l, 'c) Hypothesis list"
  proof (cases al)
    case None
    then have "hyps = base" using r g1 [of None] by simp
    then show ?thesis using b lb by blast
  next
    case (Some a)
    then have "map_e (\<lambda>(i, hyp). add_alignments a i hyp) (zip [0..<num] base) = Inr hyps"
      using r g1 [of "Some a"] by simp
    from map_e_Inr [OF this]
    have l: "length hyps = num"
      and e: "\<And>i. i < num \<Longrightarrow> add_alignments a i (base ! i) = Inr (hyps ! i)"
      using lb by auto
    have "y_sequence (hyps ! i) = y_sequence (base ! i) \<and> timestep (hyps ! i) = timestep (base ! i)
        \<and> length_field (hyps ! i) = length_field (base ! i)" if "i < num" for i
      using add_alignments_keeps [OF e [OF that]] by simp
    then show ?thesis using l b by metis
  qed
  show ?thesis using one two unfolding num_def by blast
qed


theorem materialized_hypothesis_lengths_witness:
  "hyps_wf (projr (run_index hyps_1x1 steps_357)) \<and>
   (case None :: int option of None \<Rightarrow> True
    | Some n \<Rightarrow> n \<le> int (batch_size (projr (run_index hyps_1x1 steps_357)))) \<and>
   (\<exists>hyps :: (real list, real) Hypothesis list.
      batched_hyps_to_hypotheses (projr (run_index hyps_1x1 steps_357)) None None = Inr hyps \<and>
      y_sequence (hyps ! 0) = [3, 5, 7] \<and> timestep (hyps ! 0) = [0, 2, 2] \<and>
      length (y_sequence (hyps ! 0)) = 3 \<and> length (timestep (hyps ! 0)) = 3 \<and>
      length_field (hyps ! 0) = 0)"
proof -
  let ?h = "projr (run_index hyps_1x1 steps_357)"
  have w: "hyps_wf ?h" by code_simp
  have c: "case None :: int option of None \<Rightarrow> True | Some n \<Rightarrow> n \<le> int (batch_size ?h)"
    by simp
  have e: "batch_size ?h = 1" "current_lengths ?h ! 0 = 3"
    "take 3 (transcript ?h ! 0) = [3, 5, 7]"
    "take 3 (timesteps ?h ! 0) = [0, 2, 2]"
    by code_simp+
  note t = materialized_hypothesis_lengths [OF w c, where ?'l = "real list" and ?'c = real]
  from t obtain hyps :: "(real list, real) Hypothesis list"
    where r: "batched_hyps_to_hypotheses ?h None None = Inr hyps" by blast
  from t have "batched_hyps_to_hypotheses ?h None None = Inr hyps \<longrightarrow>
       length hyps = (case None :: int option of None \<Rightarrow> batch_size ?h | Some n \<Rightarrow> nat n) \<and>
       (\<forall>i < length hyps.
          y_sequence (hyps ! i) = take (current_lengths ?h ! i) (transcript ?h ! i) \<and>
          timestep (hyps ! i) = take (current_lengths ?h ! i) (timesteps ?h ! i) \<and>
          length (y_sequence (hyps ! i)) = current_lengths ?h ! i \<and>
          length (timestep (hyps ! i)) = current_lengths ?h ! i \<and>
          length_field (hyps ! i) = 0)"
    by blast
  with r have l: "length hyps = batch_size ?h"
    and p: "\<forall>i < length hyps.
          y_sequence (hyps ! i) = take (current_lengths ?h ! i) (transcript ?h ! i) \<and>
          timestep (hyps ! i) = take (current_lengths ?h ! i) (timesteps ?h ! i) \<and>
          length (y_sequence (hyps ! i)) = current_lengths ?h ! i \<and>
          length (timestep (hyps ! i)) = current_lengths ?h ! i \<and>
          length_field (hyps ! i) = 0"
    by (simp only: option.case, blast)+
  have "0 < length hyps" using l e(1) by simp
  with p have "y_sequence (hyps ! 0) = take (current_lengths ?h ! 0) (transcript ?h ! 0) \<and>
          timestep (hyps ! 0) = take (current_lengths ?h ! 0) (timesteps ?h ! 0) \<and>
          length (y_sequence (hyps ! 0)) = current_lengths ?h ! 0 \<and>
          length (timestep (hyps ! 0)) = current_lengths ?h ! 0 \<and>
          length_field (hyps ! 0) = 0"
    by blast
  then show ?thesis using w c r unfolding e by blast
qed

subsection \<open>Claim C9: grouping the alignment trace\<close>

text \<open>
  Claim C9, as stated, says that the number of alignment groups equals the number of
  distinct frames recorded for the item. \<open>batched_hyps_to_hypotheses\<close> groups by runs of
  equal consecutive time indices (\<open>torch.unique_consecutive\<close>), and
  \<open>BatchedAlignments.add_results_\<close> stores the time indices it is given: after the three
  calls with the time indices 0, 1, 0 the recorded frames \<open>[0, 1, 0]\<close> hold two distinct
  values and the materialized hypothesis has three groups.
\<close>

theorem groups_exceed_distinct_frames:
  "BatchedHyps_init 1 1 = Inr hyps_1x1 \<and> BatchedAlignments_init 1 0 1 True = Inr al_1x1 \<and>
   al_run al_1x1 al_steps_010 = Inr al_trace_010 \<and>
   recorded_frames al_trace_010 0 = [0, 1, 0] \<and>
   card (set (recorded_frames al_trace_010 0)) = 2 \<and>
   map_sum id (map alignments)
     (decode_with_alignments hyps_1x1 [([0], [3], [1], [0])] al_1x1 al_steps_010)
     = Inr [Some [[([], 1024)], [([], 3)], [([], 1024)]]]"
  by code_simp

text \<open>
  Claim C9, amended: materializing a well-formed greedy buffer together with an alignment
  buffer that stores alignments returns; for every item the alignment groups follow the runs
  of equal consecutive values of \<open>timesteps[i, :current_lengths[i]]\<close> in order (the sizes of
  the groups are the lengths of the runs, every group is non-empty and there is one group per
  run), concatenating the labels of all groups gives the recorded labels
  \<open>labels[i, :current_lengths[i]]\<close>, and when the recorded time indices are non-decreasing
  the number of groups is the number of distinct frames recorded.
\<close>

theorem alignment_groups_follow_runs:
  fixes a :: "('l, 'c) BatchedAlignments"
  assumes "hyps_wf h" and "al_wf a (batch_size h)" and "al_with_alignments a"
    and "case bs of None \<Rightarrow> True | Some n \<Rightarrow> n \<le> int (batch_size h)"
  shows "\<exists>hyps. batched_hyps_to_hypotheses h (Some a) bs = Inr hyps \<and>
     length hyps = (case bs of None \<Rightarrow> batch_size h | Some n \<Rightarrow> nat n) \<and>
     (\<forall>i < length hyps. \<exists>groups.
        alignments (hyps ! i) = Some groups \<and>
        map length groups = unique_consecutive_counts (recorded_frames a i) \<and>
        concat (map2 replicate (map length groups) (remdups_adj (recorded_frames a i)))
          = recorded_frames a i \<and>
        length groups = length (remdups_adj (recorded_frames a i)) \<and>
        (\<forall>g \<in> set groups. g \<noteq> []) \<and>
        map snd (concat groups) = recorded_labels a i \<and>
        (sorted (recorded_frames a i) \<longrightarrow> length groups = card (set (recorded_frames a i))))"
proof -
  define num where "num = (case bs of None \<Rightarrow> batch_size h | Some n \<Rightarrow> nat n)"
  define base :: "('l, 'c) Hypothesis list" where "base = map (\<lambda>i. make_Hypothesis (scores h ! i)
                  (take (current_lengths h ! i) (transcript h ! i))
                  (take (current_lengths h ! i) (timesteps h ! i))) [0..<num]"
  have g1: "batched_hyps_to_hypotheses h (Some a) bs =
      map_e (\<lambda>(i, hyp). add_alignments a i hyp) (zip [0..<num] base)"
    using greedy_hypotheses(1) [OF assms(1,4), of "Some a"] unfolding num_def base_def by simp
  have g2: "num \<le> batch_size h"
    using greedy_hypotheses(2) [OF assms(1,4)] unfolding num_def .
  have lb: "length base = num" by (simp add: base_def)
  have "\<forall>x \<in> set (zip [0..<num] base). \<exists>y. (\<lambda>(i, hyp). add_alignments a i hyp) x = Inr y"
  proof
    fix x assume "x \<in> set (zip [0..<num] base)"
    then obtain i hyp where x: "x = (i, hyp)" "i < num" by (auto simp: set_zip)
    then have "i < batch_size h" using g2 by simp
    from add_alignments_ok [OF assms(2) this assms(3), of hyp]
    show "\<exists>y. (\<lambda>(i, hyp). add_alignments a i hyp) x = Inr y" using x by auto
  qed
  then obtain hyps where hyps: "map_e (\<lambda>(i, hyp). add_alignments a i hyp) (zip [0..<num] base) = Inr hyps"
    using map_e_exists by blast
  from map_e_Inr [OF hyps] have len: "length hyps = num"
    and each: "\<forall>i < num. add_alignments a i (base ! i) = Inr (hyps ! i)"
    using lb by auto
  have "\<exists>groups.
        alignments (hyps ! i) = Some groups \<and>
        map length groups = unique_consecutive_counts (recorded_frames a i) \<and>
        concat (map2 replicate (map length groups) (remdups_adj (recorded_frames a i)))
          = recorded_frames a i \<and>
        length groups = length (remdups_adj (recorded_frames a i)) \<and>
        (\<forall>g \<in> set groups. g \<noteq> []) \<and>
        map snd (concat groups) = recorded_labels a i \<and>
        (sorted (recorded_frames a i) \<longrightarrow> length groups = card (set (recorded_frames a i)))"
    if i: "i < num" for i
  proof -
    have ib: "i < batch_size h" using i g2 by simp
    from add_alignments_ok [OF assms(2) ib assms(3), of "base ! i"] each i
    obtain groups where gr: "alignments (hyps ! i) = Some groups"
      "map length groups = unique_consecutive_counts (recorded_frames a i)"
      "map snd (concat groups) = recorded_labels a i"
      by (auto simp: recorded_frames_def recorded_labels_def)
    have l: "length groups = length (unique_consecutive_counts (recorded_frames a i))"
      using gr(2) by (metis length_map)
    have pos: "\<forall>g \<in> set groups. g \<noteq> []"
    proof
      fix g assume "g \<in> set groups"
      then have "length g \<in> set (map length groups)" by simp
      then have "0 < length g" using unique_consecutive_counts_pos gr(2) by metis
      then show "g \<noteq> []" by simp
    qed
    show ?thesis
      using gr l pos unique_consecutive_counts_runs [of "recorded_frames a i"]
        length_unique_consecutive_counts_sorted [of "recorded_frames a i"]
      by auto
  qed
  then show ?thesis using g1 hyps len unfolding num_def by auto
qed

text \<open>
  The theorem at the trace of frames 0, 0, 1, 2, 2, 2 with the labels blank, 3, blank, 5,
  blank, 7, materialized with the greedy buffer holding 3, 5, 7: three groups of the sizes
  2, 1, 3.
\<close>

theorem alignment_groups_follow_runs_witness:
  "hyps_wf hyps_357 \<and> al_wf al_trace_6 (batch_size hyps_357) \<and> al_with_alignments al_trace_6 \<and>
   run_index hyps_1x1 steps_357 = Inr hyps_357 \<and> al_run al_1x1 al_steps_6 = Inr al_trace_6 \<and>
   recorded_frames al_trace_6 0 = [0, 0, 1, 2, 2, 2] \<and>
   recorded_labels al_trace_6 0 = [1024, 3, 1024, 5, 1024, 7] \<and>
   (\<exists>hyps groups. batched_hyps_to_hypotheses hyps_357 (Some al_trace_6) None = Inr hyps \<and>
      length hyps = 1 \<and> alignments (hyps ! 0) = Some groups \<and>
      map length groups = [2, 1, 3] \<and> length groups = 3 \<and>
      card (set (recorded_frames al_trace_6 0)) = 3 \<and>
      map snd (concat groups) = [1024, 3, 1024, 5, 1024, 7])"
proof -
  have w: "hyps_wf hyps_357" by (rule hyps_357_wf)
  have b: "batch_size hyps_357 = 1" by (simp add: hyps_357_def)
  have aw: "al_wf al_trace_6 (batch_size hyps_357)" using al_trace_6_wf b by simp
  have wa: "al_with_alignments al_trace_6" by (simp add: al_trace_6_def)
  have bs: "case None of None \<Rightarrow> True | Some n \<Rightarrow> n \<le> int (batch_size hyps_357)" by simp
  have fr: "recorded_frames al_trace_6 0 = [0, 0, 1, 2, 2, 2]"
    by (simp add: recorded_frames_def al_trace_6_def)
  have lb: "recorded_labels al_trace_6 0 = [1024, 3, 1024, 5, 1024, 7]"
    by (simp add: recorded_labels_def al_trace_6_def)
  have cnt: "unique_consecutive_counts [0, 0, 1, 2, 2, 2] = [2, 1, 3]"
    by (simp add: unique_consecutive_counts_def)
  have srt: "sorted [0, 0, 1, 2, 2, 2 :: int]" by simp
  from alignment_groups_follow_runs [OF w aw wa bs]
  obtain hyps where hyps: "batched_hyps_to_hypotheses hyps_357 (Some al_trace_6) None = Inr hyps"
    "length hyps = 1"
    "\<forall>i < length hyps. \<exists>groups.
        alignments (hyps ! i) = Some groups \<and>
        map length groups = unique_consecutive_counts (recorded_frames al_trace_6 i) \<and>
        concat (map2 replicate (map length groups) (remdups_adj (recorded_frames al_trace_6 i)))
          = recorded_frames al_trace_6 i \<and>
        length groups = length (remdups_adj (recorded_frames al_trace_6 i)) \<and>
        (\<forall>g \<in> set groups. g \<noteq> []) \<and>
        map snd (concat groups) = recorded_labels al_trace_6 i \<and>
        (sorted (recorded_frames al_trace_6 i) \<longrightarrow>
           length groups = card (set (recorded_frames al_trace_6 i)))"
    using b by auto
  from hyps(2,3) obtain groups where g: "alignments (hyps ! 0) = Some groups"
    "map length groups = unique_consecutive_counts (recorded_frames al_trace_6 0)"
    "length groups = length (remdups_adj (recorded_frames al_trace_6 0))"
    "map snd (concat groups) = recorded_labels al_trace_6 0"
    "sorted (recorded_frames al_trace_6 0) \<longrightarrow>
           length groups = card (set (recorded_frames al_trace_6 0))"
    by (metis zero_less_one)
  have g3: "length groups = 3" using g(3) by (simp add: fr)
  have c3: "card (set (recorded_frames al_trace_6 0)) = 3" using g(5) g3 srt by (simp add: fr)
  show ?thesis
    using w aw wa hyps_357_reached al_trace_6_reached fr lb hyps(1,2) g(1) g(2) g(4) g3 c3 cnt
    by (simp del: One_nat_def)
qed

subsection \<open>Claim C4: \<open>get_best_hyps\<close>\<close>

text \<open>
  Claim C4: when every list \<open>best_hyps[b]\<close> of completed hypotheses is non-empty,
  \<open>get_best_hyps\<close> returns one hypothesis per batch item, an entry of \<open>best_hyps[b]\<close>
  whose score no entry exceeds and which comes before every other entry of the same score
  (the order of the stable sort); when some \<open>best_hyps[b]\<close> is empty the call fails, with
  Python's \<open>IndexError\<close> from \<open>sorted_hyps[0]\<close>.
\<close>

theorem get_best_hyps_first_maximum:
  assumes len: "length (bm_best_hyps h) = bm_batch_size h"
  shows "((\<forall>hyps \<in> set (bm_best_hyps h). hyps \<noteq> []) \<longrightarrow>
           (\<exists>res. get_best_hyps h = Inr res \<and> length res = bm_batch_size h \<and>
              (\<forall>b < bm_batch_size h. \<exists>pre post.
                 bm_best_hyps h ! b = pre @ res ! b # post \<and>
                 (\<forall>x \<in> set (bm_best_hyps h ! b). score x \<le> score (res ! b)) \<and>
                 (\<forall>x \<in> set pre. score x < score (res ! b))))) \<and>
         ((\<exists>hyps \<in> set (bm_best_hyps h). hyps = []) \<longrightarrow> get_best_hyps h = Inl IndexError)"
proof (intro conjI impI)
  let ?f = "\<lambda>batch_idx. ebind (nth_e (bm_best_hyps h) batch_idx) (\<lambda>hyps.
        nth_e (sorted_reverse score hyps) 0)"
  have f: "?f b = nth_e (sorted_reverse score (bm_best_hyps h ! b)) 0" if "b < bm_batch_size h" for b
    using that len by (simp add: nth_e_def)
  {
    assume all: "\<forall>hyps \<in> set (bm_best_hyps h). hyps \<noteq> []"
    have "\<forall>b \<in> set [0..<bm_batch_size h]. \<exists>y. ?f b = Inr y"
    proof
      fix b assume "b \<in> set [0..<bm_batch_size h]"
      then have b: "b < bm_batch_size h" by simp
      then have "bm_best_hyps h ! b \<noteq> []" using all len by simp
      from sorted_reverse_head [OF this, of score] show "\<exists>y. ?f b = Inr y"
        using f [OF b] by auto
    qed
    then obtain res where res: "map_e ?f [0..<bm_batch_size h] = Inr res"
      using map_e_exists [of "[0..<bm_batch_size h]" ?f] by blast
    from map_e_Inr [OF res] have l: "length res = bm_batch_size h"
      and each: "\<forall>b < bm_batch_size h. ?f b = Inr (res ! b)" by auto
    have "\<exists>pre post.
                 bm_best_hyps h ! b = pre @ res ! b # post \<and>
                 (\<forall>x \<in> set (bm_best_hyps h ! b). score x \<le> score (res ! b)) \<and>
                 (\<forall>x \<in> set pre. score x < score (res ! b))" if b: "b < bm_batch_size h" for b
    proof -
      have ne: "bm_best_hyps h ! b \<noteq> []" using all len b by simp
      have "nth_e (sorted_reverse score (bm_best_hyps h ! b)) 0 = Inr (res ! b)"
        using each b f [OF b] by simp
      with sorted_reverse_head [OF ne, of score] show ?thesis by auto
    qed
    then show "\<exists>res. get_best_hyps h = Inr res \<and> length res = bm_batch_size h \<and>
              (\<forall>b < bm_batch_size h. \<exists>pre post.
                 bm_best_hyps h ! b = pre @ res ! b # post \<and>
                 (\<forall>x \<in> set (bm_best_hyps h ! b). score x \<le> score (res ! b)) \<and>
                 (\<forall>x \<in> set pre. score x < score (res ! b)))"
      using res l unfolding get_best_hyps_def by blast
  }
  {
    assume "\<exists>hyps \<in> set (bm_best_hyps h). hyps = []"
    then obtain b where b: "b < bm_batch_size h" "bm_best_hyps h ! b = []"
      using len by (metis in_set_conv_nth)
    have e: "?f b = Inl IndexError" using f [OF b(1)] b(2) by (simp add: sorted_reverse_empty)
    have "\<forall>y \<in> set [0..<bm_batch_size h]. ?f y = Inl IndexError \<or> (\<exists>z. ?f y = Inr z)"
    proof
      fix y assume "y \<in> set [0..<bm_batch_size h]"
      then have y: "y < bm_batch_size h" by simp
      show "?f y = Inl IndexError \<or> (\<exists>z. ?f y = Inr z)"
      proof (cases "bm_best_hyps h ! y = []")
        case True
        then show ?thesis using f [OF y] by (simp add: sorted_reverse_empty)
      next
        case False
        from sorted_reverse_head [OF this, of score] show ?thesis using f [OF y] by auto
      qed
    qed
    then show "get_best_hyps h = Inl IndexError"
      unfolding get_best_hyps_def using map_e_Inl [of b "[0..<bm_batch_size h]" ?f IndexError] b(1) e
      by simp
  }
qed

text \<open>
  The theorem at a buffer with the completed scores \<open>-2, -1, -1\<close>, where the first of the two
  hypotheses of score \<open>-1\<close> is returned, and at the fresh buffer, whose list is empty.
\<close>

theorem get_best_hyps_first_maximum_witness:
  "length (bm_best_hyps beam_completed) = bm_batch_size beam_completed \<and>
   bm_best_hyps beam_completed =
     [[completed_hyp (- 2) [5], completed_hyp (- 1) [6], completed_hyp (- 1) [7]]] \<and>
   get_best_hyps beam_completed = Inr [completed_hyp (- 1) [6]] \<and>
   (\<exists>pre post. bm_best_hyps beam_completed ! 0 = pre @ completed_hyp (- 1) [6] # post \<and>
      (\<forall>x \<in> set (bm_best_hyps beam_completed ! 0). score x \<le> - 1) \<and>
      (\<forall>x \<in> set pre. score x < - 1)) \<and>
   length (bm_best_hyps beam_1x3) = bm_batch_size beam_1x3 \<and>
   bm_best_hyps beam_1x3 = [[]] \<and>
   get_best_hyps beam_1x3 = Inl IndexError"
proof -
  have l1: "length (bm_best_hyps beam_completed) = bm_batch_size beam_completed"
    by (simp add: beam_completed_def beam_1x3_def)
  have c1: "bm_best_hyps beam_completed =
     [[completed_hyp (- 2) [5], completed_hyp (- 1) [6], completed_hyp (- 1) [7]]]"
    by (simp add: beam_completed_def)
  have ne: "\<forall>hyps \<in> set (bm_best_hyps beam_completed). hyps \<noteq> []" by (simp add: c1)
  have b1: "bm_batch_size beam_completed = 1" by (simp add: beam_completed_def beam_1x3_def)
  have v: "get_best_hyps beam_completed = Inr [completed_hyp (- 1) [6]]" by code_simp
  from get_best_hyps_first_maximum [OF l1] ne obtain res where
    res: "get_best_hyps beam_completed = Inr res"
    "\<forall>b < bm_batch_size beam_completed. \<exists>pre post.
                 bm_best_hyps beam_completed ! b = pre @ res ! b # post \<and>
                 (\<forall>x \<in> set (bm_best_hyps beam_completed ! b). score x \<le> score (res ! b)) \<and>
                 (\<forall>x \<in> set pre. score x < score (res ! b))"
    by blast
  have r: "res = [completed_hyp (- 1) [6]]" using res(1) v by simp
  have sc: "score (completed_hyp (- 1) [6]) = - 1" by (simp add: completed_hyp_def)
  have p1: "\<exists>pre post. bm_best_hyps beam_completed ! 0 = pre @ completed_hyp (- 1) [6] # post \<and>
      (\<forall>x \<in> set (bm_best_hyps beam_completed ! 0). score x \<le> - 1) \<and>
      (\<forall>x \<in> set pre. score x < - 1)"
    using res(2) [rule_format, of 0] unfolding r b1 by (simp add: sc)
  have l2: "length (bm_best_hyps beam_1x3) = bm_batch_size beam_1x3" by (simp add: beam_1x3_def)
  have c2: "bm_best_hyps beam_1x3 = [[]]" by (simp add: beam_1x3_def)
  have e: "\<exists>hyps \<in> set (bm_best_hyps beam_1x3). hyps = []" by (simp add: c2)
  have v2: "get_best_hyps beam_1x3 = Inl IndexError"
    using get_best_hyps_first_maximum [OF l2] e by blast
  show ?thesis using l1 c1 v p1 l2 c2 v2 by blast
qed

subsection \<open>Claim C7: \<open>update_beam\<close> reorders every array alike\<close>

text \<open>
  Claim C7: for a buffer of the constructor's shapes and a beam index with entries
  \<open>0 \<le> beam_idx[b, k] < beam_size\<close>, the reordering at the start of \<open>update_beam\<close> returns,
  and \<open>update_beam\<close> is \<open>append_labels\<close> on its result. In that result, for every batch
  item \<open>b\<close> and new slot \<open>k\<close>, the score, the two lengths, the rows of the compacted
  transcripts and timesteps (start and end), of the full transcripts and full timesteps, of
  the token and total scores, the label and blank score sums, the last timestep and its
  repetitions at \<open>(b, k)\<close> are the values that the buffer had at \<open>(b, beam_idx[b, k])\<close>; the
  sizes are unchanged.
\<close>

theorem update_beam_reorders_every_array:
  assumes sh: "beam_shape h" and idx: "valid_beam_idx (bm_batch_size h) (bm_beam_size h) beam_idx"
  shows "\<exists>h'. update_beam_reorder h beam_idx = Inr h' \<and>
     update_beam h labels label_logps blank_logps blank_logps_per_blank num_blanks beam_idx
       = append_labels h' labels label_logps blank_logps blank_logps_per_blank num_blanks \<and>
     beam_shape h' \<and>
     bm_batch_size h' = bm_batch_size h \<and> bm_beam_size h' = bm_beam_size h \<and>
     bm_max_length h' = bm_max_length h \<and>
     (\<forall>b < bm_batch_size h. \<forall>k < bm_beam_size h.
        bm_scores h' ! b ! k = bm_scores h ! b ! nat (beam_idx ! b ! k) \<and>
        bm_current_lengths h' ! b ! k = bm_current_lengths h ! b ! nat (beam_idx ! b ! k) \<and>
        bm_full_current_lengths h' ! b ! k
          = bm_full_current_lengths h ! b ! nat (beam_idx ! b ! k) \<and>
        bm_transcripts h' ! b ! k = bm_transcripts h ! b ! nat (beam_idx ! b ! k) \<and>
        bm_timesteps h' ! b ! k = bm_timesteps h ! b ! nat (beam_idx ! b ! k) \<and>
        bm_timesteps_end h' ! b ! k = bm_timesteps_end h ! b ! nat (beam_idx ! b ! k) \<and>
        bm_full_transcripts h' ! b ! k = bm_full_transcripts h ! b ! nat (beam_idx ! b ! k) \<and>
        bm_full_timesteps h' ! b ! k = bm_full_timesteps h ! b ! nat (beam_idx ! b ! k) \<and>
        bm_token_scores h' ! b ! k = bm_token_scores h ! b ! nat (beam_idx ! b ! k) \<and>
        bm_total_scores h' ! b ! k = bm_total_scores h ! b ! nat (beam_idx ! b ! k) \<and>
        bm_label_scores h' ! b ! k = bm_label_scores h ! b ! nat (beam_idx ! b ! k) \<and>
        bm_blank_scores h' ! b ! k = bm_blank_scores h ! b ! nat (beam_idx ! b ! k) \<and>
        bm_last_timestep h' ! b ! k = bm_last_timestep h ! b ! nat (beam_idx ! b ! k) \<and>
        bm_last_timestep_repetitions h' ! b ! k
          = bm_last_timestep_repetitions h ! b ! nat (beam_idx ! b ! k))"
proof -
  let ?B = "bm_batch_size h"
  let ?K = "bm_beam_size h"
  define h' where "h' = h
     \<lparr> bm_scores := map (\<lambda>b. map (\<lambda>j. bm_scores h ! b ! nat j) (beam_idx ! b)) [0..<bm_batch_size h],
       bm_last_timestep :=
         map (\<lambda>b. map (\<lambda>j. bm_last_timestep h ! b ! nat j) (beam_idx ! b)) [0..<bm_batch_size h],
       bm_current_lengths :=
         map (\<lambda>b. map (\<lambda>j. bm_current_lengths h ! b ! nat j) (beam_idx ! b)) [0..<bm_batch_size h],
       bm_last_timestep_repetitions :=
         map (\<lambda>b. map (\<lambda>j. bm_last_timestep_repetitions h ! b ! nat j) (beam_idx ! b))
           [0..<bm_batch_size h],
       bm_timesteps :=
         map (\<lambda>b. map (\<lambda>j. bm_timesteps h ! b ! nat j) (beam_idx ! b)) [0..<bm_batch_size h],
       bm_transcripts :=
         map (\<lambda>b. map (\<lambda>j. bm_transcripts h ! b ! nat j) (beam_idx ! b)) [0..<bm_batch_size h],
       bm_timesteps_end :=
         map (\<lambda>b. map (\<lambda>j. bm_timesteps_end h ! b ! nat j) (beam_idx ! b)) [0..<bm_batch_size h],
       bm_full_timesteps :=
         map (\<lambda>b. map (\<lambda>j. bm_full_timesteps h ! b ! nat j) (beam_idx ! b)) [0..<bm_batch_size h],
       bm_label_scores :=
         map (\<lambda>b. map (\<lambda>j. bm_label_scores h ! b ! nat j) (beam_idx ! b)) [0..<bm_batch_size h],
       bm_blank_scores :=
         map (\<lambda>b. map (\<lambda>j. bm_blank_scores h ! b ! nat j) (beam_idx ! b)) [0..<bm_batch_size h],
       bm_total_scores :=
         map (\<lambda>b. map (\<lambda>j. bm_total_scores h ! b ! nat j) (beam_idx ! b)) [0..<bm_batch_size h],
       bm_token_scores :=
         map (\<lambda>b. map (\<lambda>j. bm_token_scores h ! b ! nat j) (beam_idx ! b)) [0..<bm_batch_size h],
       bm_full_current_lengths :=
         map (\<lambda>b. map (\<lambda>j. bm_full_current_lengths h ! b ! nat j) (beam_idx ! b))
           [0..<bm_batch_size h],
       bm_full_transcripts :=
         map (\<lambda>b. map (\<lambda>j. bm_full_transcripts h ! b ! nat j) (beam_idx ! b))
           [0..<bm_batch_size h] \<rparr>"
  have run: "update_beam_reorder h beam_idx = Inr h'"
    unfolding h'_def by (rule update_beam_reorder_ok [OF sh idx])
  have ub: "update_beam h labels label_logps blank_logps blank_logps_per_blank num_blanks beam_idx
       = append_labels h' labels label_logps blank_logps blank_logps_per_blank num_blanks"
    by (simp add: update_beam_def run)
  have sz: "bm_batch_size h' = ?B" "bm_beam_size h' = ?K" "bm_max_length h' = bm_max_length h"
    "bm_last_timestep_lasts h' = bm_last_timestep_lasts h"
    by (simp_all add: h'_def)
  have sh': "beam_shape h'"
    unfolding beam_shape_def sz
    using sh [unfolded beam_shape_def]
    by (simp add: h'_def reordered_grid [OF idx] reordered_grid3 [OF idx])
  have cells: "bm_scores h' ! b ! k = bm_scores h ! b ! nat (beam_idx ! b ! k) \<and>
        bm_current_lengths h' ! b ! k = bm_current_lengths h ! b ! nat (beam_idx ! b ! k) \<and>
        bm_full_current_lengths h' ! b ! k
          = bm_full_current_lengths h ! b ! nat (beam_idx ! b ! k) \<and>
        bm_transcripts h' ! b ! k = bm_transcripts h ! b ! nat (beam_idx ! b ! k) \<and>
        bm_timesteps h' ! b ! k = bm_timesteps h ! b ! nat (beam_idx ! b ! k) \<and>
        bm_timesteps_end h' ! b ! k = bm_timesteps_end h ! b ! nat (beam_idx ! b ! k) \<and>
        bm_full_transcripts h' ! b ! k = bm_full_transcripts h ! b ! nat (beam_idx ! b ! k) \<and>
        bm_full_timesteps h' ! b ! k = bm_full_timesteps h ! b ! nat (beam_idx ! b ! k) \<and>
        bm_token_scores h' ! b ! k = bm_token_scores h ! b ! nat (beam_idx ! b ! k) \<and>
        bm_total_scores h' ! b ! k = bm_total_scores h ! b ! nat (beam_idx ! b ! k) \<and>
        bm_label_scores h' ! b ! k = bm_label_scores h ! b ! nat (beam_idx ! b ! k) \<and>
        bm_blank_scores h' ! b ! k = bm_blank_scores h ! b ! nat (beam_idx ! b ! k) \<and>
        bm_last_timestep h' ! b ! k = bm_last_timestep h ! b ! nat (beam_idx ! b ! k) \<and>
        bm_last_timestep_repetitions h' ! b ! k
          = bm_last_timestep_repetitions h ! b ! nat (beam_idx ! b ! k)"
    if "b < ?B" "k < ?K" for b k
    by (simp add: h'_def reordered_nth [OF idx that])
  show ?thesis using run ub sh' sz cells by blast
qed

text \<open>
  The theorem at the buffer \<open>beam_one\<close>, whose three beams differ, with the beam index
  \<open>[1, 1, 0]\<close>: the new slots 0 and 1 hold the full transcript of the old slot 1, the new
  slot 2 holds the arrays of the old slot 0.
\<close>

theorem update_beam_reorders_every_array_witness:
  "beam_shape beam_one \<and>
   valid_beam_idx (bm_batch_size beam_one) (bm_beam_size beam_one) [[1, 1, 0]] \<and>
   bm_beam_size beam_one = 3 \<and>
   bm_full_transcripts beam_one ! 0 ! 1 = [6, 1024, 1024, 1024] \<and>
   (\<exists>h'. update_beam_reorder beam_one [[1, 1, 0]] = Inr h' \<and>
      bm_full_transcripts h' ! 0 ! 0 = [6, 1024, 1024, 1024] \<and>
      bm_full_transcripts h' ! 0 ! 1 = [6, 1024, 1024, 1024] \<and>
      bm_full_transcripts h' ! 0 ! 2 = [1024, 5, 1024, 1024] \<and>
      bm_transcripts h' ! 0 ! 2 = [5, 0, 0, 0] \<and>
      bm_token_scores h' ! 0 ! 2 = [- (1 / 10), - (1 / 2), 0, 0] \<and>
      bm_scores h' ! 0 ! 0 = - 1 \<and> bm_scores h' ! 0 ! 2 = - (3 / 10) \<and>
      bm_current_lengths h' ! 0 ! 2 = 1 \<and>
      bm_full_current_lengths h' ! 0 ! 0 = 1 \<and> bm_full_current_lengths h' ! 0 ! 2 = 2)"
proof -
  have sh: "beam_shape beam_one" by (rule beam_one_shape)
  have sz: "bm_batch_size beam_one = 1" "bm_beam_size beam_one = 3" by (simp_all add: beam_one_def)
  have idx: "valid_beam_idx (bm_batch_size beam_one) (bm_beam_size beam_one) [[1, 1, 0]]"
    by (simp add: valid_beam_idx_def grid_def sz)
  from update_beam_reorders_every_array [OF sh idx] obtain h' where
    run: "update_beam_reorder beam_one [[1, 1, 0]] = Inr h'"
    and cells: "\<forall>b < bm_batch_size beam_one. \<forall>k < bm_beam_size beam_one.
        bm_scores h' ! b ! k = bm_scores beam_one ! b ! nat ([[1, 1, 0]] ! b ! k) \<and>
        bm_current_lengths h' ! b ! k = bm_current_lengths beam_one ! b ! nat ([[1, 1, 0]] ! b ! k) \<and>
        bm_full_current_lengths h' ! b ! k
          = bm_full_current_lengths beam_one ! b ! nat ([[1, 1, 0]] ! b ! k) \<and>
        bm_transcripts h' ! b ! k = bm_transcripts beam_one ! b ! nat ([[1, 1, 0]] ! b ! k) \<and>
        bm_timesteps h' ! b ! k = bm_timesteps beam_one ! b ! nat ([[1, 1, 0]] ! b ! k) \<and>
        bm_timesteps_end h' ! b ! k = bm_timesteps_end beam_one ! b ! nat ([[1, 1, 0]] ! b ! k) \<and>
        bm_full_transcripts h' ! b ! k = bm_full_transcripts beam_one ! b ! nat ([[1, 1, 0]] ! b ! k) \<and>
        bm_full_timesteps h' ! b ! k = bm_full_timesteps beam_one ! b ! nat ([[1, 1, 0]] ! b ! k) \<and>
        bm_token_scores h' ! b ! k = bm_token_scores beam_one ! b ! nat ([[1, 1, 0]] ! b ! k) \<and>
        bm_total_scores h' ! b ! k = bm_total_scores beam_one ! b ! nat ([[1, 1, 0]] ! b ! k) \<and>
        bm_label_scores h' ! b ! k = bm_label_scores beam_one ! b ! nat ([[1, 1, 0]] ! b ! k) \<and>
        bm_blank_scores h' ! b ! k = bm_blank_scores beam_one ! b ! nat ([[1, 1, 0]] ! b ! k) \<and>
        bm_last_timestep h' ! b ! k = bm_last_timestep beam_one ! b ! nat ([[1, 1, 0]] ! b ! k) \<and>
        bm_last_timestep_repetitions h' ! b ! k
          = bm_last_timestep_repetitions beam_one ! b ! nat ([[1, 1, 0]] ! b ! k)"
    by blast
  have k0: "(0::nat) < bm_batch_size beam_one" "(0::nat) < bm_beam_size beam_one"
    "(1::nat) < bm_beam_size beam_one" "(2::nat) < bm_beam_size beam_one"
    by (simp_all add: sz)
  have c0: "bm_full_transcripts h' ! 0 ! 0 = [6, 1024, 1024, 1024]" "bm_scores h' ! 0 ! 0 = - 1"
    "bm_full_current_lengths h' ! 0 ! 0 = 1"
    using cells [rule_format, OF k0(1) k0(2)] by (simp_all add: beam_one_def)
  have c1: "bm_full_transcripts h' ! 0 ! 1 = [6, 1024, 1024, 1024]"
    using cells [rule_format, OF k0(1) k0(3)] by (simp add: beam_one_def)
  have c2: "bm_full_transcripts h' ! 0 ! 2 = [1024, 5, 1024, 1024]"
    "bm_transcripts h' ! 0 ! 2 = [5, 0, 0, 0]"
    "bm_token_scores h' ! 0 ! 2 = [- (1 / 10), - (1 / 2), 0, 0]"
    "bm_scores h' ! 0 ! 2 = - (3 / 10)" "bm_current_lengths h' ! 0 ! 2 = 1"
    "bm_full_current_lengths h' ! 0 ! 2 = 2"
    using cells [rule_format, OF k0(1) k0(4)] by (simp_all add: beam_one_def)
  have f1: "bm_full_transcripts beam_one ! 0 ! 1 = [6, 1024, 1024, 1024]"
    by (simp add: beam_one_def)
  show ?thesis using sh idx sz(2) f1 run c0 c1 c2 by blast
qed

end
